theory Spec2Isabelle
  imports Main "HOL-Library.Word"
begin

section \<open>JavaScript values and strings\<close>

text \<open>
  A JavaScript string is a sequence of UTF-16 code units: \<open>s.length\<close>, \<open>s[i]\<close>,
  \<open>slice\<close> and a regular expression without the \<open>u\<close> flag all count code units.
  \<open>js\<close> writes a Latin-1 literal as such a sequence.
\<close>

type_synonym code_unit = "16 word"
type_synonym jsstring = "code_unit list"

definition js :: "string \<Rightarrow> jsstring" where
  "js s = map of_char s"

text \<open>
  The values a helper can be called with. The helpers only ask \<open>typeof x === 'string'\<close>
  of their input, so everything that is not a string behaves alike there.
  \<open>JEntry v e\<close> is the object \<open>{ v, e }\<close> in which the data store wraps a payload
  \<open>v\<close> and an expiry time \<open>e\<close>; \<open>None\<close> stands for \<open>null\<close> or \<open>undefined\<close>
  in either field. Numbers are modelled as mathematical integers: fractions, NaN and
  infinities are left out, and the sum of the model is the sum of the code where the
  operands and the sum are integers that a double represents exactly (\<open>exactInteger\<close>
  below); what is stated about numbers is stated within that range.
\<close>

datatype jsval =
    JUndefined
  | JNull
  | JBool bool
  | JNumber int
  | JString jsstring
  | JEntry "int option" "int option"

text \<open>Destructuring with a default: \<open>const { x = d } = options\<close>.\<close>

definition orDefault :: "'a \<Rightarrow> 'a option \<Rightarrow> 'a" where
  "orDefault d x = (case x of None \<Rightarrow> d | Some y \<Rightarrow> y)"

subsection \<open>Character classes\<close>

definition isDigit :: "code_unit \<Rightarrow> bool" where
  \<comment> \<open>\<open>\d\<close>, \<open>[0-9]\<close>\<close>
  "isDigit c = (0x30 \<le> c \<and> c \<le> 0x39)"

definition isLower :: "code_unit \<Rightarrow> bool" where
  \<comment> \<open>\<open>[a-z]\<close>\<close>
  "isLower c = (0x61 \<le> c \<and> c \<le> 0x7A)"

definition isUpper :: "code_unit \<Rightarrow> bool" where
  \<comment> \<open>\<open>[A-Z]\<close>\<close>
  "isUpper c = (0x41 \<le> c \<and> c \<le> 0x5A)"

definition isAlpha :: "code_unit \<Rightarrow> bool" where
  \<comment> \<open>\<open>[a-zA-Z]\<close>\<close>
  "isAlpha c = (isLower c \<or> isUpper c)"

definition isAlnum :: "code_unit \<Rightarrow> bool" where
  \<comment> \<open>\<open>[a-zA-Z0-9]\<close>\<close>
  "isAlnum c = (isAlpha c \<or> isDigit c)"

definition isHexDigit :: "code_unit \<Rightarrow> bool" where
  \<comment> \<open>\<open>[0-9a-fA-F]\<close>\<close>
  "isHexDigit c = (isDigit c \<or> (0x61 \<le> c \<and> c \<le> 0x66) \<or> (0x41 \<le> c \<and> c \<le> 0x46))"

definition isLineTerminator :: "code_unit \<Rightarrow> bool" where
  \<comment> \<open>LF, CR, LINE SEPARATOR, PARAGRAPH SEPARATOR: what \<open>.\<close> does not match\<close>
  "isLineTerminator c = (c = 0x0A \<or> c = 0x0D \<or> c = 0x2028 \<or> c = 0x2029)"

definition isWhiteSpace :: "code_unit \<Rightarrow> bool" where
  \<comment> \<open>what \<open>trimEnd\<close> strips: WhiteSpace (TAB, VT, FF, SP, NBSP, ZWNBSP, category Zs)
      and LineTerminator\<close>
  "isWhiteSpace c =
     (c = 0x09 \<or> c = 0x0B \<or> c = 0x0C \<or> c = 0x20 \<or> c = 0xA0 \<or> c = 0xFEFF \<or>
      c = 0x1680 \<or> (0x2000 \<le> c \<and> c \<le> 0x200A) \<or> c = 0x202F \<or> c = 0x205F \<or>
      c = 0x3000 \<or> isLineTerminator c)"

section \<open>truncate\<close>

record truncate_options =
  wordSafe :: "bool option"
  ellipsis :: "jsstring option"

definition no_truncate_options :: truncate_options where
  \<comment> \<open>\<open>options = {}\<close>\<close>
  "no_truncate_options = \<lparr> wordSafe = None, ellipsis = None \<rparr>"

primrec lastIndexOf :: "code_unit \<Rightarrow> jsstring \<Rightarrow> int" where
  \<comment> \<open>\<open>s.lastIndexOf(c)\<close>: the last position of \<open>c\<close>, or \<open>-1\<close>\<close>
  "lastIndexOf c [] = -1"
| "lastIndexOf c (x # xs) =
     (let r = lastIndexOf c xs
      in if 0 \<le> r then r + 1 else if x = c then 0 else -1)"

definition trimEnd :: "jsstring \<Rightarrow> jsstring" where
  "trimEnd s = rev (dropWhile isWhiteSpace (rev s))"

text \<open>
  \<open>truncate(text, length, options)\<close>, for an integer \<open>length\<close>. The constant is
  called \<open>truncateText\<close> because the library has a \<open>truncate\<close> of its own.
\<close>

definition truncateText :: "jsval \<Rightarrow> int \<Rightarrow> truncate_options \<Rightarrow> jsstring" where
  "truncateText text len options =
     (case text of
        JString s \<Rightarrow>
          if len \<le> 0 then []
          else if int (length s) \<le> len then s
          else
            let truncated = take (nat len) s;
                lastSpace = lastIndexOf 0x20 truncated;
                truncated =
                  (if orDefault False (wordSafe options) \<and> 0 < lastSpace
                   then take (nat lastSpace) truncated
                   else truncated)
            in trimEnd truncated @ orDefault (js ''...'') (ellipsis options)
      | _ \<Rightarrow> [])"

section \<open>passwordStrength\<close>

record password_rules =
  minLength :: "int option"
  maxLength :: "int option"
  requireLowercase :: "bool option"
  requireUppercase :: "bool option"
  requireNumber :: "bool option"
  requireSymbol :: "bool option"

definition no_password_rules :: password_rules where
  \<comment> \<open>\<open>rules = {}\<close>\<close>
  "no_password_rules =
     \<lparr> minLength = None, maxLength = None, requireLowercase = None,
       requireUppercase = None, requireNumber = None, requireSymbol = None \<rparr>"

record password_result =
  score :: nat
  label :: jsstring
  reasons_pw :: "jsstring list"

definition labels :: "jsstring list" where
  "labels = [js ''weak'', js ''fair'', js ''good'', js ''strong'', js ''very_strong'']"

definition hasLower :: "jsstring \<Rightarrow> bool" where
  \<comment> \<open>\<open>/[a-z]/.test(password)\<close>\<close>
  "hasLower p = list_ex isLower p"

definition hasUpper :: "jsstring \<Rightarrow> bool" where
  \<comment> \<open>\<open>/[A-Z]/.test(password)\<close>\<close>
  "hasUpper p = list_ex isUpper p"

definition hasNumber :: "jsstring \<Rightarrow> bool" where
  \<comment> \<open>\<open>/\d/.test(password)\<close>\<close>
  "hasNumber p = list_ex isDigit p"

definition hasSymbol :: "jsstring \<Rightarrow> bool" where
  \<comment> \<open>\<open>/[^A-Za-z0-9]/.test(password)\<close>: a negated class also matches line terminators\<close>
  "hasSymbol p = list_ex (\<lambda>c. \<not> isAlnum c) p"

definition pushIf :: "bool \<Rightarrow> jsstring \<Rightarrow> jsstring list" where
  \<comment> \<open>\<open>if (b) reasons.push(r)\<close>, as the list of what it appends\<close>
  "pushIf b r = (if b then [r] else [])"

definition passwordStrength :: "jsval \<Rightarrow> password_rules \<Rightarrow> password_result" where
  "passwordStrength password rules =
     (case password of
        JString p \<Rightarrow>
          let minL = orDefault 8 (minLength rules);
              maxL = orDefault 128 (maxLength rules);
              n = int (length p);
              reasons =
                pushIf (n < minL) (js ''too_short'') @
                pushIf (maxL < n) (js ''too_long'') @
                pushIf (orDefault True (requireLowercase rules) \<and> \<not> hasLower p)
                  (js ''missing_lowercase'') @
                pushIf (orDefault True (requireUppercase rules) \<and> \<not> hasUpper p)
                  (js ''missing_uppercase'') @
                pushIf (orDefault True (requireNumber rules) \<and> \<not> hasNumber p)
                  (js ''missing_number'') @
                pushIf (orDefault True (requireSymbol rules) \<and> \<not> hasSymbol p)
                  (js ''missing_symbol'');
              score =
                (if hasLower p then 1 else 0) + (if hasUpper p then 1 else 0) +
                (if hasNumber p then 1 else 0) + (if hasSymbol p then 1 else 0);
              score = (if 12 \<le> n then score + 1 else score);
              score = (if 16 \<le> n then score + 1 else score);
              score = min score 4;
              label = labels ! score;
              label = (if n < minL then js ''weak'' else label);
              label = (if maxL < n then js ''weak'' else label)
          in \<lparr> score = score, label = label, reasons_pw = reasons \<rparr>
      | _ \<Rightarrow> \<lparr> score = 0, label = js ''invalid'', reasons_pw = [js ''not_a_string''] \<rparr>)"

section \<open>MemoryAdapter\<close>

text \<open>
  \<open>this._m\<close> is a \<open>Map\<close> from keys to whatever was stored. The methods are
  \<open>async\<close> but never await: each runs to completion, so a call is a function from the
  map to the result and the new map. \<open>incr\<close> reads the clock twice; the two readings
  are parameters.
\<close>

type_synonym store = "jsstring \<rightharpoonup> jsval"

definition get_key :: "store \<Rightarrow> jsstring \<Rightarrow> jsval" where
  \<comment> \<open>\<open>this._m.get(key)\<close>: \<open>undefined\<close> for an absent key\<close>
  "get_key m key = (case m key of None \<Rightarrow> JUndefined | Some x \<Rightarrow> x)"

definition set_key :: "store \<Rightarrow> jsstring \<Rightarrow> jsval \<Rightarrow> store" where
  "set_key m key x = m(key \<mapsto> x)"

definition field_v :: "jsval \<Rightarrow> int option" where
  \<comment> \<open>\<open>curr?.v\<close>: only the wrapper object has a property \<open>v\<close>\<close>
  "field_v x = (case x of JEntry v e \<Rightarrow> v | _ \<Rightarrow> None)"

definition field_e :: "jsval \<Rightarrow> int option" where
  \<comment> \<open>\<open>curr?.e\<close>\<close>
  "field_e x = (case x of JEntry v e \<Rightarrow> e | _ \<Rightarrow> None)"

definition exactInteger :: "int \<Rightarrow> bool" where
  \<comment> \<open>the integers that every double up to \<open>2 ^ 53\<close> in size represents exactly; a sum of
      two of them that is one of them again is computed exactly\<close>
  "exactInteger x = (- (2 ^ 53) \<le> x \<and> x \<le> 2 ^ 53)"

definition incr :: "store \<Rightarrow> jsstring \<Rightarrow> int option \<Rightarrow> int \<Rightarrow> int \<Rightarrow> int \<times> store" where
  \<comment> \<open>\<open>incr(key, delta = 1)\<close>; \<open>now1\<close> and \<open>now2\<close> are the two values of \<open>Date.now()\<close>;
      \<open>+\<close> is the sum of \<open>Number(currVal) + Number(delta)\<close> where both numbers and their
      sum satisfy \<open>exactInteger\<close>\<close>
  "incr m key delta now1 now2 =
     (let cur = get_key m key;
          currVal = orDefault 0 (field_v cur);
          next = currVal + orDefault 1 delta;
          ttl = (case field_e cur of Some e \<Rightarrow> Some (e - now1) | None \<Rightarrow> None);
          wrapped =
            JEntry (Some next) (case ttl of None \<Rightarrow> None | Some t \<Rightarrow> Some (now2 + t))
      in (next, m(key \<mapsto> wrapped)))"

section \<open>Regular expressions built at run time\<close>

text \<open>
  What a call can throw: an exception raised inside a callback of the caller, or the
  \<open>SyntaxError\<close> of \<open>new RegExp\<close> on a pattern that does not compile.
\<close>

datatype error = CallbackError | RegExpSyntaxError

datatype 'a outcome = Returns 'a | Throws

definition escapeRegExp :: "jsstring \<Rightarrow> jsstring" where
  \<comment> \<open>\<open>s.replace(/[.*+?^${}()|[\]\\]/g, "\\$&")\<close>: a backslash before each of
      \<open>. * + ? ^ $ { } ( ) | [ ] \\<close>\<close>
  "escapeRegExp s =
     concat (map (\<lambda>c. if c \<in> set [0x2E, 0x2A, 0x2B, 0x3F, 0x5E, 0x24, 0x7B, 0x7D, 0x28, 0x29,
                                    0x7C, 0x5B, 0x5D, 0x5C]
                        then [0x5C, c] else [c]) s)"

text \<open>
  The atoms of a pattern text made of plain characters and backslash escapes. A backslash
  before a syntax character denotes that character; a backslash with nothing after it
  does not compile. Both escaping functions of this program put a backslash before every
  syntax character, so no plain atom acts as an operator, except \<open>-\<close> inside a
  character class, which neither of them escapes.
\<close>

datatype atom = Plain code_unit | Escaped code_unit

fun atomChar :: "atom \<Rightarrow> code_unit" where
  "atomChar (Plain c) = c"
| "atomChar (Escaped c) = c"

fun sourceAtoms :: "jsstring \<Rightarrow> atom list option" where
  "sourceAtoms [] = Some []"
| "sourceAtoms [c] = (if c = 0x5C then None else Some [Plain c])"
| "sourceAtoms (c # d # cs) =
     (if c = 0x5C then map_option (Cons (Escaped d)) (sourceAtoms cs)
      else map_option (Cons (Plain c)) (sourceAtoms (d # cs)))"

fun containsText :: "jsstring \<Rightarrow> jsstring \<Rightarrow> bool" where
  \<comment> \<open>an unanchored match of a literal text somewhere in the subject\<close>
  "containsText needle [] = (needle = [])"
| "containsText needle (c # cs) =
     (take (length needle) (c # cs) = needle \<or> containsText needle cs)"

definition consecutiveRegExp :: "jsstring \<Rightarrow> error + (jsstring \<Rightarrow> bool)" where
  \<comment> \<open>\<open>new RegExp(`${escapeRegExp(ch)}{2,}`)\<close> and its \<open>test\<close>: the quantifier binds to
      the last atom; with no atom before it there is nothing to repeat\<close>
  "consecutiveRegExp ch =
     (case sourceAtoms (escapeRegExp ch) of
        None \<Rightarrow> Inl RegExpSyntaxError
      | Some [] \<Rightarrow> Inl RegExpSyntaxError
      | Some (a # as) \<Rightarrow>
          Inr (containsText
                 (map atomChar (butlast (a # as)) @
                  [atomChar (last (a # as)), atomChar (last (a # as))])))"

section \<open>validateUsername\<close>

text \<open>
  A \<open>RegExp\<close> of the caller is its source text and its \<open>test\<close> (a pattern without the
  \<open>g\<close> and \<open>y\<close> flags, whose \<open>test\<close> keeps no position between calls). A list of exact
  values is an array or a \<open>Set\<close>. \<open>normalize\<close> and the \<open>custom\<close> validators are
  functions of the caller: they return a value or throw.
\<close>

record regexp =
  source :: jsstring
  test :: "jsstring \<Rightarrow> bool"

datatype collection = JArray "jsstring list" | JSet "jsstring list"

record username_rules =
  min_rule :: "int option"
  max_rule :: "int option"
  allowed :: "regexp option"
  startsWith :: "regexp option"
  endsWith :: "regexp option"
  disallow :: "regexp list option"
  blacklist :: "collection option"
  whitelist :: "collection option"
  noConsecutive :: "collection option"
  normalize_rule :: "(jsstring \<Rightarrow> jsstring outcome) option"
  custom :: "(jsstring \<Rightarrow> jsval outcome) list option"

definition no_rules :: username_rules where
  \<comment> \<open>\<open>rules = {}\<close>\<close>
  "no_rules =
     \<lparr> min_rule = None, max_rule = None, allowed = None, startsWith = None, endsWith = None,
       disallow = None, blacklist = None, whitelist = None, noConsecutive = None,
       normalize_rule = None, custom = None \<rparr>"

record username_result =
  ok :: bool
  reasons :: "jsstring list"
  value_out :: jsstring

definition hasExact :: "collection \<Rightarrow> jsstring \<Rightarrow> bool" where
  "hasExact listOrSet v =
     (case listOrSet of JArray xs \<Rightarrow> v \<in> set xs | JSet xs \<Rightarrow> v \<in> set xs)"

definition inList :: "collection option \<Rightarrow> jsstring \<Rightarrow> bool" where
  \<comment> \<open>\<open>list && hasExact(list, value)\<close>\<close>
  "inList l v = (case l of None \<Rightarrow> False | Some c \<Rightarrow> hasExact c v)"

definition fails :: "regexp option \<Rightarrow> jsstring \<Rightarrow> bool" where
  \<comment> \<open>\<open>re && !re.test(value)\<close>\<close>
  "fails r v = (case r of None \<Rightarrow> False | Some re \<Rightarrow> \<not> test re v)"

definition disallowReasons :: "regexp list \<Rightarrow> jsstring \<Rightarrow> jsstring list" where
  "disallowReasons res v =
     concat (map (\<lambda>re. pushIf (test re v) (js ''disallowed_pattern:'' @ source re)) res)"

fun consecutiveLoop :: "jsstring list \<Rightarrow> jsstring \<Rightarrow> error + jsstring list" where
  \<comment> \<open>\<open>for (const ch of noConsecutive)\<close>\<close>
  "consecutiveLoop [] v = Inr []"
| "consecutiveLoop (ch # rest) v =
     (case consecutiveRegExp ch of
        Inl err \<Rightarrow> Inl err
      | Inr re \<Rightarrow>
          (case consecutiveLoop rest v of
             Inl err \<Rightarrow> Inl err
           | Inr rs \<Rightarrow> Inr (pushIf (re v) (js ''consecutive:'' @ ch) @ rs)))"

definition consecutiveReasons :: "collection option \<Rightarrow> jsstring \<Rightarrow> error + jsstring list" where
  \<comment> \<open>\<open>if (noConsecutive && noConsecutive.length > 0)\<close>: a \<open>Set\<close> has no \<open>length\<close>, and
      \<open>undefined > 0\<close> is false\<close>
  "consecutiveReasons nc v =
     (case nc of
        Some (JArray xs) \<Rightarrow> if 0 < length xs then consecutiveLoop xs v else Inr []
      | Some (JSet xs) \<Rightarrow> Inr []
      | None \<Rightarrow> Inr [])"

fun customReasons :: "(jsstring \<Rightarrow> jsval outcome) list \<Rightarrow> jsstring \<Rightarrow> jsstring list" where
  \<comment> \<open>\<open>try { const res = fn(value); if (typeof res === 'string' && res) ... } catch\<close>\<close>
  "customReasons [] v = []"
| "customReasons (fn # rest) v =
     (case fn v of
        Returns (JString res) \<Rightarrow> pushIf (res \<noteq> []) res
      | Returns _ \<Rightarrow> []
      | Throws \<Rightarrow> [js ''custom_validator_error'']) @ customReasons rest v"

definition normalized :: "username_rules \<Rightarrow> jsstring \<Rightarrow> jsstring outcome" where
  \<comment> \<open>\<open>normalize ? normalize(username) : username\<close>\<close>
  "normalized rules username =
     (case normalize_rule rules of None \<Rightarrow> Returns username | Some f \<Rightarrow> f username)"

definition collectReasons :: "username_rules \<Rightarrow> jsstring \<Rightarrow> error + jsstring list" where
  \<comment> \<open>the checks after the whitelist, in the order in which they push\<close>
  "collectReasons rules v =
     (case consecutiveReasons (noConsecutive rules) v of
        Inl err \<Rightarrow> Inl err
      | Inr consecutive \<Rightarrow>
          Inr (pushIf (int (length v) < orDefault 1 (min_rule rules)) (js ''too_short'') @
               pushIf (orDefault 64 (max_rule rules) < int (length v)) (js ''too_long'') @
               pushIf (fails (allowed rules) v) (js ''invalid_chars'') @
               pushIf (fails (startsWith rules) v) (js ''bad_start'') @
               pushIf (fails (endsWith rules) v) (js ''bad_end'') @
               disallowReasons (orDefault [] (disallow rules)) v @
               consecutive @
               pushIf (inList (blacklist rules) v) (js ''blacklisted'') @
               customReasons (orDefault [] (custom rules)) v))"

definition validateUsername :: "jsval \<Rightarrow> username_rules \<Rightarrow> error + username_result" where
  "validateUsername username rules =
     (case username of
        JString s \<Rightarrow>
          (case normalized rules s of
             Throws \<Rightarrow> Inl CallbackError
           | Returns v \<Rightarrow>
               if inList (whitelist rules) v
               then Inr \<lparr> ok = True, reasons = [], value_out = v \<rparr>
               else
                 (case collectReasons rules v of
                    Inl err \<Rightarrow> Inl err
                  | Inr rs \<Rightarrow> Inr \<lparr> ok = (length rs = 0), reasons = rs, value_out = v \<rparr>))
      | _ \<Rightarrow> Inr \<lparr> ok = False, reasons = [js ''not_a_string''], value_out = [] \<rparr>)"

subsection \<open>Rule sets used as examples\<close>

definition rules_trimmed :: username_rules where
  \<comment> \<open>\<open>{ max: 3, blacklist: ["admin "], whitelist: ["admin "], normalize: s => s.trimEnd() }\<close>\<close>
  "rules_trimmed =
     no_rules \<lparr> max_rule := Some 3, blacklist := Some (JArray [js ''admin '']),
                whitelist := Some (JArray [js ''admin '']),
                normalize_rule := Some (\<lambda>s. Returns (trimEnd s)) \<rparr>"

definition rules_whitelisted :: username_rules where
  \<comment> \<open>\<open>{ max: 3, blacklist: ["admin"], whitelist: new Set(["admin"]),
        custom: [() => { throw new Error() }] }\<close>\<close>
  "rules_whitelisted =
     no_rules \<lparr> max_rule := Some 3, blacklist := Some (JArray [js ''admin'']),
                whitelist := Some (JSet [js ''admin'']),
                custom := Some [\<lambda>v. Throws] \<rparr>"

definition rules_throwing_custom :: username_rules where
  \<comment> \<open>\<open>{ custom: [() => { throw new Error() }] }\<close>\<close>
  "rules_throwing_custom = no_rules \<lparr> custom := Some [\<lambda>v. Throws] \<rparr>"

definition rules_throwing_normalize :: username_rules where
  \<comment> \<open>\<open>{ normalize: () => { throw new Error() } }\<close>\<close>
  "rules_throwing_normalize = no_rules \<lparr> normalize_rule := Some (\<lambda>s. Throws) \<rparr>"

section \<open>escapeHTML\<close>

subsection \<open>Objects, sets and option values\<close>

text \<open>
  A plain object with string values: its own properties in the order of their creation.
  Enumeration (\<open>Object.keys\<close>, spread) lists the array indices first, in ascending
  numeric order, and then the other keys in creation order.
\<close>

type_synonym jsobject = "(jsstring \<times> jsstring) list"

definition indexValue :: "jsstring \<Rightarrow> int" where
  \<comment> \<open>the number a string of decimal digits denotes\<close>
  "indexValue k = foldl (\<lambda>a d. 10 * a + (uint d - 48)) 0 k"

definition isArrayIndex :: "jsstring \<Rightarrow> bool" where
  \<comment> \<open>a canonical numeric string below \<open>2 ^ 32 - 1\<close>\<close>
  "isArrayIndex k =
     (k \<noteq> [] \<and> list_all isDigit k \<and> (k = [0x30] \<or> take 1 k \<noteq> [0x30]) \<and>
      indexValue k < 4294967295)"

definition ownEntries :: "jsobject \<Rightarrow> jsobject" where
  "ownEntries obj =
     sort_key (\<lambda>p. indexValue (fst p)) (filter (\<lambda>p. isArrayIndex (fst p)) obj) @
     filter (\<lambda>p. \<not> isArrayIndex (fst p)) obj"

definition ownKeys :: "jsobject \<Rightarrow> jsstring list" where
  \<comment> \<open>\<open>Object.keys(obj)\<close>\<close>
  "ownKeys obj = map fst (ownEntries obj)"

definition putProp :: "jsobject \<Rightarrow> jsstring \<Rightarrow> jsstring \<Rightarrow> jsobject" where
  \<comment> \<open>\<open>obj[k] = v\<close>: an existing property keeps its place\<close>
  "putProp obj k v =
     (if k \<in> set (map fst obj)
      then map (\<lambda>p. if fst p = k then (k, v) else p) obj
      else obj @ [(k, v)])"

definition spread :: "jsobject \<Rightarrow> jsobject \<Rightarrow> jsobject" where
  \<comment> \<open>\<open>{ ...a, ...b }\<close>\<close>
  "spread a b =
     fold (\<lambda>p obj. putProp obj (fst p) (snd p)) (ownEntries b)
       (fold (\<lambda>p obj. putProp obj (fst p) (snd p)) (ownEntries a) [])"

fun newSet :: "'a list \<Rightarrow> 'a list" where
  \<comment> \<open>\<open>new Set(xs)\<close>, as its elements in insertion order\<close>
  "newSet [] = []"
| "newSet (x # xs) = x # filter (\<lambda>y. y \<noteq> x) (newSet xs)"

datatype chars = Text jsstring | Chars "jsstring list"

definition isHighSurrogate :: "code_unit \<Rightarrow> bool" where
  "isHighSurrogate c = (0xD800 \<le> c \<and> c \<le> 0xDBFF)"

definition isLowSurrogate :: "code_unit \<Rightarrow> bool" where
  "isLowSurrogate c = (0xDC00 \<le> c \<and> c \<le> 0xDFFF)"

fun codePoints :: "jsstring \<Rightarrow> jsstring list" where
  \<comment> \<open>\<open>Array.from(s)\<close>: a string iterates by code point, a surrogate pair stays together\<close>
  "codePoints [] = []"
| "codePoints [c] = [[c]]"
| "codePoints (c # d # cs) =
     (if isHighSurrogate c \<and> isLowSurrogate d then [c, d] # codePoints cs
      else [c] # codePoints (d # cs))"

definition toChars :: "chars \<Rightarrow> jsstring list" where
  \<comment> \<open>\<open>Array.isArray(v) ? v : Array.from(String(v))\<close>\<close>
  "toChars v = (case v of Chars xs \<Rightarrow> xs | Text s \<Rightarrow> codePoints s)"

record escape_options =
  extra :: "chars option"
  exclude :: "chars option"
  map_obj :: "jsobject option"
  preventDoubleEscape :: "bool option"

definition no_options :: escape_options where
  \<comment> \<open>\<open>options = {}\<close>\<close>
  "no_options =
     \<lparr> extra = None, exclude = None, map_obj = None, preventDoubleEscape = None \<rparr>"

definition baseMap :: jsobject where
  "baseMap =
     [(js ''&'', js ''&amp;''), (js ''<'', js ''&lt;''), (js ''>'', js ''&gt;''),
      ([0x22], js ''&quot;''), ([0x27], js ''&#39;'')]"

definition entityMap :: "escape_options \<Rightarrow> jsobject" where
  "entityMap options = spread baseMap (orDefault [] (map_obj options))"

definition extraChars :: "escape_options \<Rightarrow> jsstring list" where
  "extraChars options = toChars (orDefault (Text []) (extra options))"

definition excludeChars :: "escape_options \<Rightarrow> jsstring list" where
  "excludeChars options = toChars (orDefault (Text []) (exclude options))"

definition escapeSet :: "escape_options \<Rightarrow> jsstring list" where
  "escapeSet options =
     (let extraSet = newSet (extraChars options);
          excludeSet = newSet (excludeChars options)
      in filter (\<lambda>ch. ch \<notin> set excludeSet)
           (newSet (ownKeys (entityMap options) @ extraSet)))"

subsection \<open>The character class\<close>

definition escapeClassChar :: "jsstring \<Rightarrow> jsstring" where
  \<comment> \<open>\<open>ch.replace(/[\\^$.*+?()[\]{}|]/g, "\\$&")\<close>: a backslash before each of
      \<open>\ ^ $ . * + ? ( ) [ ] { } |\<close>\<close>
  "escapeClassChar ch =
     concat (map (\<lambda>c. if c \<in> set [0x5C, 0x5E, 0x24, 0x2E, 0x2A, 0x2B, 0x3F, 0x28, 0x29, 0x5B,
                                    0x5D, 0x7B, 0x7D, 0x7C]
                        then [0x5C, c] else [c]) ch)"

definition regexClass :: "jsstring list \<Rightarrow> jsstring" where
  "regexClass chs = concat (map escapeClassChar chs)"

text \<open>
  The ranges of a character class \<open>[...]\<close>, from the atoms between the brackets: an
  atom, a plain \<open>-\<close> and another atom form a range, which does not compile when it is
  out of order; any other atom stands for itself.
\<close>

fun classRanges :: "atom list \<Rightarrow> (code_unit \<times> code_unit) list option" where
  "classRanges [] = Some []"
| "classRanges (a # Plain d # b # rest) =
     (if d = 0x2D
      then (if atomChar a \<le> atomChar b
            then map_option (Cons (atomChar a, atomChar b)) (classRanges rest)
            else None)
      else map_option (Cons (atomChar a, atomChar a)) (classRanges (Plain d # b # rest)))"
| "classRanges (a # rest) = map_option (Cons (atomChar a, atomChar a)) (classRanges rest)"

definition compileClass :: "jsstring \<Rightarrow> error + (code_unit \<times> code_unit) list" where
  \<comment> \<open>\<open>new RegExp(`[${regexClass}]`, "g")\<close>\<close>
  "compileClass src =
     (case sourceAtoms src of
        None \<Rightarrow> Inl RegExpSyntaxError
      | Some as \<Rightarrow>
          (case classRanges as of
             None \<Rightarrow> Inl RegExpSyntaxError
           | Some ranges \<Rightarrow> Inr ranges))"

definition classTest :: "(code_unit \<times> code_unit) list \<Rightarrow> code_unit \<Rightarrow> bool" where
  "classTest ranges c = list_ex (\<lambda>r. fst r \<le> c \<and> c \<le> snd r) ranges"

definition replaceClass :: "(code_unit \<times> code_unit) list \<Rightarrow> jsobject \<Rightarrow> jsstring \<Rightarrow> jsstring" where
  \<comment> \<open>\<open>s.replace(pattern, (ch) => entityMap[ch] ?? ch)\<close>; a key of one code unit is
      never a property inherited from \<open>Object.prototype\<close>\<close>
  "replaceClass pattern emap s =
     concat (map (\<lambda>ch. if classTest pattern ch
                        then (case map_of emap [ch] of Some ent \<Rightarrow> ent | None \<Rightarrow> [ch])
                        else [ch]) s)"

subsection \<open>The scan that spares entity references\<close>

text \<open>
  \<open>/&(#\d+|#x[0-9a-fA-F]+|[a-zA-Z][a-zA-Z0-9]+);|./g\<close>. Each alternative of the group
  ends in a greedy run of one class followed by \<open>;\<close>, and \<open>;\<close> is in none of the
  classes: giving back characters of the run never helps, so the run is the longest one.
  \<open>run\<close> returns the length of the run with its \<open>;\<close>; \<open>entityTail\<close> tries the
  alternatives in order on what follows the \<open>&\<close> and returns the length of the group
  with its \<open>;\<close>.
\<close>

definition run :: "(code_unit \<Rightarrow> bool) \<Rightarrow> jsstring \<Rightarrow> nat option" where
  "run P cs =
     (let n = length (takeWhile P cs)
      in if 0 < n \<and> take 1 (drop n cs) = [0x3B] then Some (Suc n) else None)"

definition altDecimal :: "jsstring \<Rightarrow> nat option" where
  \<comment> \<open>\<open>#\d+;\<close>\<close>
  "altDecimal cs =
     (case cs of
        h # r \<Rightarrow> if h = 0x23 then map_option Suc (run isDigit r) else None
      | [] \<Rightarrow> None)"

definition altHex :: "jsstring \<Rightarrow> nat option" where
  \<comment> \<open>\<open>#x[0-9a-fA-F]+;\<close>\<close>
  "altHex cs =
     (case cs of
        h # x # r \<Rightarrow>
          if h = 0x23 \<and> x = 0x78 then map_option (\<lambda>n. Suc (Suc n)) (run isHexDigit r) else None
      | _ \<Rightarrow> None)"

definition altNamed :: "jsstring \<Rightarrow> nat option" where
  \<comment> \<open>\<open>[a-zA-Z][a-zA-Z0-9]+;\<close>\<close>
  "altNamed cs =
     (case cs of
        l # r \<Rightarrow> if isAlpha l then map_option Suc (run isAlnum r) else None
      | [] \<Rightarrow> None)"

definition entityTail :: "jsstring \<Rightarrow> nat option" where
  "entityTail cs =
     (case altDecimal cs of
        Some k \<Rightarrow> Some k
      | None \<Rightarrow> (case altHex cs of Some k \<Rightarrow> Some k | None \<Rightarrow> altNamed cs))"

definition isEntityRef :: "jsstring \<Rightarrow> bool" where
  \<comment> \<open>the first alternative of the pattern matches the whole text\<close>
  "isEntityRef m =
     (case m of c # cs \<Rightarrow> c = 0x26 \<and> entityTail cs = Some (length cs) | [] \<Rightarrow> False)"

text \<open>
  \<open>input.replace(pattern, f)\<close> for that pattern: at each position the entity
  alternative is tried first and \<open>.\<close> second; \<open>.\<close> does not match a line terminator,
  which then is no part of any match and stays as it is.
\<close>

fun scanTokens :: "(jsstring \<Rightarrow> jsstring) \<Rightarrow> jsstring \<Rightarrow> jsstring" where
  "scanTokens f [] = []"
| "scanTokens f (c # cs) =
     (case (if c = 0x26 then entityTail cs else None) of
        Some k \<Rightarrow> f (c # take k cs) @ scanTokens f (drop k cs)
      | None \<Rightarrow>
          if isLineTerminator c then c # scanTokens f cs
          else f [c] @ scanTokens f cs)"

definition replacer :: "(code_unit \<times> code_unit) list \<Rightarrow> jsobject \<Rightarrow> jsstring \<Rightarrow> jsstring" where
  \<comment> \<open>the callback \<open>(m) => { if (m.length > 1 && m[0] === "&" && m.endsWith(";")) return m;
      return m.replace(pattern, ...) }\<close>\<close>
  "replacer pattern emap m =
     (if 1 < length m \<and> take 1 m = [0x26] \<and> take 1 (rev m) = [0x3B] then m
      else replaceClass pattern emap m)"

definition escapeHTML :: "jsval \<Rightarrow> escape_options \<Rightarrow> error + jsstring" where
  "escapeHTML input options =
     (case input of
        JString s \<Rightarrow>
          if length (escapeSet options) = 0 then Inr s
          else
            (case compileClass (regexClass (escapeSet options)) of
               Inl err \<Rightarrow> Inl err
             | Inr pattern \<Rightarrow>
                 if \<not> orDefault True (preventDoubleEscape options)
                 then Inr (replaceClass pattern (entityMap options) s)
                 else Inr (scanTokens (replacer pattern (entityMap options)) s))
      | _ \<Rightarrow> Inr [])"

subsection \<open>Notions used to state the properties\<close>

definition defaultPattern :: "(code_unit \<times> code_unit) list" where
  \<comment> \<open>the class \<open>[&<>"']\<close>\<close>
  "defaultPattern = [(0x26, 0x26), (0x3C, 0x3C), (0x3E, 0x3E), (0x22, 0x22), (0x27, 0x27)]"

definition classAtom :: "code_unit \<Rightarrow> atom" where
  \<comment> \<open>the atom that \<open>escapeClassChar\<close> makes of one character\<close>
  "classAtom c =
     (if c \<in> set [0x5C, 0x5E, 0x24, 0x2E, 0x2A, 0x2B, 0x3F, 0x28, 0x29, 0x5B, 0x5D, 0x7B, 0x7D, 0x7C]
      then Escaped c else Plain c)"

definition joinResults :: "error + jsstring \<Rightarrow> jsstring \<Rightarrow> error + jsstring \<Rightarrow> error + jsstring" where
  \<comment> \<open>two results around a text that is kept, or the first error\<close>
  "joinResults x e y =
     (case x of
        Inl err \<Rightarrow> Inl err
      | Inr a \<Rightarrow> (case y of Inl err \<Rightarrow> Inl err | Inr b \<Rightarrow> Inr (a @ e @ b)))"

text \<open>
  The substitution of the specification: a member of the effective escape set becomes
  its entity in the merged map, or stays as it is when the map has no entry for it; any
  other character stays as it is.
\<close>

definition substitute :: "escape_options \<Rightarrow> code_unit \<Rightarrow> jsstring" where
  "substitute options c =
     (if [c] \<in> set (escapeSet options)
      then (case map_of (entityMap options) [c] of Some ent \<Rightarrow> ent | None \<Rightarrow> [c])
      else [c])"

text \<open>
  The shape of an entity reference in words: \<open>&\<close>, a body, \<open>;\<close>. The bodies: one or
  more digits; \<open>#\<close> and one or more digits; \<open>#\<close>, a given letter \<open>x\<close> and one or more
  hex digits; a letter and one or more alphanumerics.
\<close>

definition refShape :: "(jsstring \<Rightarrow> bool) \<Rightarrow> jsstring \<Rightarrow> bool" where
  "refShape body m =
     (case m of
        [] \<Rightarrow> False
      | c # cs \<Rightarrow> c = 0x26 \<and> cs \<noteq> [] \<and> last cs = 0x3B \<and> body (butlast cs))"

definition digitsBody :: "jsstring \<Rightarrow> bool" where
  "digitsBody b = (b \<noteq> [] \<and> list_all isDigit b)"

definition decimalBody :: "jsstring \<Rightarrow> bool" where
  "decimalBody b = (case b of [] \<Rightarrow> False | h # ds \<Rightarrow> h = 0x23 \<and> digitsBody ds)"

definition hexBody :: "code_unit \<Rightarrow> jsstring \<Rightarrow> bool" where
  "hexBody x b =
     (case b of
        h # y # hs \<Rightarrow> h = 0x23 \<and> y = x \<and> hs \<noteq> [] \<and> list_all isHexDigit hs
      | _ \<Rightarrow> False)"

definition namedBody :: "jsstring \<Rightarrow> bool" where
  "namedBody b =
     (case b of [] \<Rightarrow> False | l # r \<Rightarrow> isAlpha l \<and> r \<noteq> [] \<and> list_all isAlnum r)"

definition spec_entity_shape :: "jsstring \<Rightarrow> bool" where
  \<comment> \<open>the words of the specification: digits, or \<open>#x\<close> or \<open>#X\<close> and hex digits, or a name\<close>
  "spec_entity_shape m =
     refShape (\<lambda>b. digitsBody b \<or> hexBody 0x78 b \<or> hexBody 0x58 b \<or> namedBody b) m"

definition entityShape :: "jsstring \<Rightarrow> bool" where
  \<comment> \<open>\<open>#\<close> and digits, or \<open>#x\<close> and hex digits, or a name\<close>
  "entityShape m = refShape (\<lambda>b. decimalBody b \<or> hexBody 0x78 b \<or> namedBody b) m"

definition upperHexShape :: "jsstring \<Rightarrow> bool" where
  \<comment> \<open>\<open>#X\<close> and hex digits\<close>
  "upperHexShape m = refShape (hexBody 0x58) m"

definition startsWith :: "(jsstring \<Rightarrow> bool) \<Rightarrow> jsstring \<Rightarrow> bool" where
  \<comment> \<open>some prefix of the text has the shape\<close>
  "startsWith shape s = list_ex (\<lambda>n. shape (take n s)) [0..<Suc (length s)]"

subsection \<open>Option values used as examples\<close>

definition options_equals :: escape_options where
  \<comment> \<open>\<open>{ extra: "`=", map: { "=": "&equals;", "`": "&#96;" }, preventDoubleEscape: false }\<close>\<close>
  "options_equals =
     \<lparr> extra = Some (Text (js ''`='')), exclude = None,
       map_obj = Some [(js ''='', js ''&equals;''), (js ''`'', js ''&#96;'')],
       preventDoubleEscape = Some False \<rparr>"

definition options_dash :: escape_options where
  \<comment> \<open>\<open>{ extra: "-", map: { "-": "&#45;" } }\<close>\<close>
  "options_dash =
     \<lparr> extra = Some (Text (js ''-'')), exclude = None,
       map_obj = Some [(js ''-'', js ''&#45;'')], preventDoubleEscape = None \<rparr>"

definition options_range :: escape_options where
  \<comment> \<open>\<open>{ extra: "-a", exclude: "<" }\<close>\<close>
  "options_range =
     \<lparr> extra = Some (Text (js ''-a'')), exclude = Some (Text (js ''<'')),
       map_obj = None, preventDoubleEscape = None \<rparr>"

definition options_bad_range :: escape_options where
  \<comment> \<open>\<open>{ extra: "-!" }\<close>\<close>
  "options_bad_range =
     \<lparr> extra = Some (Text (js ''-!'')), exclude = None,
       map_obj = None, preventDoubleEscape = None \<rparr>"

definition options_newline :: escape_options where
  \<comment> \<open>\<open>{ extra: "\n", map: { "\n": "&#10;" } }\<close>\<close>
  "options_newline =
     \<lparr> extra = Some (Text [0x0A]), exclude = None,
       map_obj = Some [([0x0A], js ''&#10;'')], preventDoubleEscape = None \<rparr>"

section \<open>Properties of truncate\<close>

text \<open>
  C9, as stated: \<open>truncate("Hello world, this is a test.", 10)\<close> returns
  \<open>"Hello wor..."\<close>. The code does not return that string.
\<close>

theorem truncate_hello_not_wor:
  "truncateText (JString (js ''Hello world, this is a test.'')) 10 no_truncate_options
     \<noteq> js ''Hello wor...''"
  by (simp add: truncateText_def no_truncate_options_def orDefault_def trimEnd_def js_def
      isWhiteSpace_def isLineTerminator_def)

text \<open>
  C9, amended: \<open>truncate("Hello world, this is a test.", 10)\<close> returns
  \<open>"Hello worl..."\<close>: the first ten code units, nothing to trim, then the default
  ellipsis.
\<close>

theorem truncate_hello_worl:
  "truncateText (JString (js ''Hello world, this is a test.'')) 10 no_truncate_options
     = js ''Hello worl...''"
  by (simp add: truncateText_def no_truncate_options_def orDefault_def trimEnd_def js_def
      isWhiteSpace_def isLineTerminator_def)

section \<open>Properties of passwordStrength\<close>

text \<open>
  C10: the score counts the character classes present (lowercase, uppercase, digit,
  symbol), adds one at 12 and one more at 16 code units, is capped at 4, and does not
  look at the length bounds of the rules; a password shorter than \<open>minLength\<close> that has
  all four classes gets score 4 together with the label \<open>weak\<close>.
\<close>

theorem passwordStrength_score_label_disagree:
  "score (passwordStrength (JString p) rules) =
     min ((if hasLower p then 1 else 0) + (if hasUpper p then 1 else 0) +
          (if hasNumber p then 1 else 0) + (if hasSymbol p then 1 else 0) +
          (if 12 \<le> length p then 1 else 0) + (if 16 \<le> length p then 1 else 0)) 4
   \<and> (hasLower p \<and> hasUpper p \<and> hasNumber p \<and> hasSymbol p \<and>
        int (length p) < orDefault 8 (minLength rules) \<longrightarrow>
        score (passwordStrength (JString p) rules) = 4 \<and>
        label (passwordStrength (JString p) rules) = js ''weak'')"
  by (simp add: passwordStrength_def Let_def)

theorem passwordStrength_score_label_disagree_witness:
  "hasLower (js ''Ab1!'') \<and> hasUpper (js ''Ab1!'') \<and> hasNumber (js ''Ab1!'') \<and>
   hasSymbol (js ''Ab1!'') \<and>
   int (length (js ''Ab1!'')) < orDefault 8 (minLength no_password_rules) \<and>
   score (passwordStrength (JString (js ''Ab1!'')) no_password_rules) = 4 \<and>
   label (passwordStrength (JString (js ''Ab1!'')) no_password_rules) = js ''weak''"
  using passwordStrength_score_label_disagree [of "js ''Ab1!''" no_password_rules]
  by (simp add: js_def hasLower_def hasUpper_def hasNumber_def hasSymbol_def isLower_def
      isUpper_def isDigit_def isAlnum_def isAlpha_def no_password_rules_def orDefault_def)

section \<open>Properties of MemoryAdapter\<close>

text \<open>
  C8, as stated: after \<open>set(key, v)\<close>, \<open>incr(key, delta)\<close> returns \<open>v + delta\<close>.
  With the number 10 stored, \<open>incr(key, 5)\<close> returns 5, not 15.
\<close>

theorem incr_after_set_number:
  "fst (incr (set_key Map.empty (js ''counter'') (JNumber 10)) (js ''counter'') (Some 5) 0 0)
     \<noteq> 10 + 5"
  by (simp add: incr_def set_key_def get_key_def field_v_def orDefault_def)

text \<open>
  C8, amended: \<open>incr(key, delta)\<close> is a read-modify-write returning an integer, for
  integers that a double represents exactly (at most \<open>2 ^ 53\<close> in size, the sum as
  well). If the key is absent it stores the wrapper \<open>{ v: delta, e: null }\<close> and
  returns \<open>delta\<close>; if the key holds a wrapper \<open>{ v: n, e }\<close> stored through \<open>set\<close>,
  it returns \<open>n + delta\<close> and stores that sum as the wrapper's new \<open>v\<close>. A \<open>delta\<close>
  that is not given counts as 1.
\<close>

theorem incr_read_modify_write:
  "(exactInteger (orDefault 1 delta) \<longrightarrow> m key = None \<longrightarrow>
      incr m key delta now1 now2 =
        (orDefault 1 delta, m(key \<mapsto> JEntry (Some (orDefault 1 delta)) None)))
   \<and> (exactInteger n \<and> exactInteger (orDefault 1 delta) \<and>
        exactInteger (n + orDefault 1 delta) \<longrightarrow>
        fst (incr (set_key m key (JEntry (Some n) e)) key delta now1 now2)
          = n + orDefault 1 delta \<and>
        field_v (get_key (snd (incr (set_key m key (JEntry (Some n) e)) key delta now1 now2)) key)
          = Some (n + orDefault 1 delta))"
  by (simp add: incr_def set_key_def get_key_def field_v_def field_e_def Let_def)
    (simp add: orDefault_def)

theorem incr_read_modify_write_witness:
  "exactInteger 1 \<and> exactInteger 10 \<and> exactInteger 5 \<and> exactInteger (10 + 5)
   \<and> (Map.empty :: store) (js ''newCounter'') = None
   \<and> incr Map.empty (js ''newCounter'') None 0 0
       = (1, Map.empty(js ''newCounter'' \<mapsto> JEntry (Some 1) None))
   \<and> fst (incr (set_key Map.empty (js ''counter'') (JEntry (Some 10) None))
            (js ''counter'') (Some 5) 0 0) = 15"
  using incr_read_modify_write
    [of None Map.empty "js ''newCounter''" 0 0 10 None]
    incr_read_modify_write
    [of "Some 5" Map.empty "js ''counter''" 0 0 10 None]
  by (simp add: orDefault_def exactInteger_def)

section \<open>Properties of validateUsername\<close>

subsection \<open>The pattern of the consecutive-character rule\<close>

lemma customReasons_throws:
  "list_ex (\<lambda>f. f v = Throws) fs \<Longrightarrow>
     js ''custom_validator_error'' \<in> set (customReasons fs v)"
  by (induction fs) auto

lemma sourceAtoms_plain:
  "c \<noteq> 0x5C \<Longrightarrow> sourceAtoms (c # rest) = map_option (Cons (Plain c)) (sourceAtoms rest)"
  by (cases rest) simp_all

lemma sourceAtoms_escapeRegExp:
  "\<exists>as. sourceAtoms (escapeRegExp s) = Some as \<and> map atomChar as = s"
proof (induction s)
  case Nil
  then show ?case by (simp add: escapeRegExp_def)
next
  case (Cons c s)
  then obtain as where as: "sourceAtoms (escapeRegExp s) = Some as" "map atomChar as = s"
    by blast
  show ?case
  proof (cases "c \<in> set [0x2E, 0x2A, 0x2B, 0x3F, 0x5E, 0x24, 0x7B, 0x7D, 0x28, 0x29,
                         0x7C, 0x5B, 0x5D, 0x5C :: code_unit]")
    case True
    then have "escapeRegExp (c # s) = 0x5C # c # escapeRegExp s"
      by (simp add: escapeRegExp_def)
    then show ?thesis using as by simp
  next
    case False
    then have "escapeRegExp (c # s) = c # escapeRegExp s" and "c \<noteq> 0x5C"
      by (auto simp add: escapeRegExp_def)
    then show ?thesis using as by (simp add: sourceAtoms_plain)
  qed
qed

lemma consecutiveRegExp_nonempty:
  "ch \<noteq> [] \<Longrightarrow> consecutiveRegExp ch = Inr (containsText (butlast ch @ [last ch, last ch]))"
proof -
  assume ne: "ch \<noteq> []"
  obtain as where as: "sourceAtoms (escapeRegExp ch) = Some as" "map atomChar as = ch"
    using sourceAtoms_escapeRegExp by blast
  with ne obtain a as' where cons: "as = a # as'" by (cases as) auto
  have b: "map atomChar (butlast as) = butlast ch"
    using as(2) by (simp add: map_butlast)
  have "as \<noteq> []" using cons by simp
  then have l: "atomChar (last as) = last ch"
    using as(2) last_map [of as atomChar] by simp
  have "consecutiveRegExp ch =
          Inr (containsText (map atomChar (butlast as) @ [atomChar (last as), atomChar (last as)]))"
    using as(1) unfolding consecutiveRegExp_def cons by simp
  then show ?thesis by (simp only: b l)
qed

lemma consecutiveRegExp_empty: "consecutiveRegExp [] = Inl RegExpSyntaxError"
  by (simp add: consecutiveRegExp_def escapeRegExp_def)

lemma consecutiveLoop_returns:
  "[] \<notin> set xs \<Longrightarrow> \<exists>rs. consecutiveLoop xs v = Inr rs"
proof (induction xs)
  case Nil
  then show ?case by simp
next
  case (Cons ch xs)
  then obtain rs where "consecutiveLoop xs v = Inr rs" by auto
  moreover have "ch \<noteq> []" using Cons.prems by auto
  ultimately show ?case by (simp add: consecutiveRegExp_nonempty)
qed

text \<open>
  On an array of single characters the loop gives one reason for each element that
  occurs twice in a row, in the order of the array.
\<close>

lemma consecutiveLoop_single_chars:
  "consecutiveLoop (map (\<lambda>c. [c]) cs) v =
     Inr (concat (map (\<lambda>c. pushIf (containsText [c, c] v) (js ''consecutive:'' @ [c])) cs))"
  by (induction cs) (simp_all add: consecutiveRegExp_nonempty)

text \<open>An empty string in the array makes \<open>new RegExp("{2,}")\<close> throw.\<close>

lemma validateUsername_empty_consecutive:
  "validateUsername (JString (js ''bob'')) (no_rules \<lparr> noConsecutive := Some (JArray [[]]) \<rparr>)
     = Inl RegExpSyntaxError"
  by (simp add: no_rules_def validateUsername_def normalized_def inList_def
      collectReasons_def consecutiveReasons_def consecutiveRegExp_empty)

lemma collectReasons_returns:
  assumes "\<And>xs. noConsecutive rules = Some (JArray xs) \<Longrightarrow> [] \<notin> set xs"
  shows "\<exists>rs. collectReasons rules v = Inr rs \<and>
           set (customReasons (orDefault [] (custom rules)) v) \<subseteq> set rs"
proof -
  have "\<exists>cs. consecutiveReasons (noConsecutive rules) v = Inr cs"
  proof (cases "noConsecutive rules")
    case None
    then show ?thesis by (simp add: consecutiveReasons_def)
  next
    case (Some coll)
    show ?thesis
    proof (cases coll)
      case (JArray xs)
      with Some assms have "[] \<notin> set xs" by simp
      then show ?thesis
        using Some JArray consecutiveLoop_returns [of xs v]
        by (simp add: consecutiveReasons_def)
    next
      case (JSet xs)
      with Some show ?thesis by (simp add: consecutiveReasons_def)
    qed
  qed
  then show ?thesis by (auto simp: collectReasons_def)
qed

subsection \<open>The whitelist\<close>

text \<open>
  C3, as stated: for every string value and every rule set whose whitelist contains
  that value, validateUsername returns \<open>ok = true\<close>. The whitelist is looked up after
  \<open>normalize\<close>, with the normalized value: with \<open>normalize: s => s.trimEnd()\<close> the
  input \<open>"admin "\<close> is in the whitelist, the value \<open>"admin"\<close> that is looked up is not,
  and the length rule fails.
\<close>

theorem whitelist_looked_up_after_normalize:
  "inList (whitelist rules_trimmed) (js ''admin'' @ [0x20]) \<and>
   validateUsername (JString (js ''admin'' @ [0x20])) rules_trimmed =
     Inr \<lparr> ok = False, reasons = [js ''too_long''], value_out = js ''admin'' \<rparr>"
  by (simp add: rules_trimmed_def no_rules_def validateUsername_def normalized_def inList_def
      hasExact_def collectReasons_def consecutiveReasons_def pushIf_def orDefault_def
      fails_def disallowReasons_def trimEnd_def js_def isWhiteSpace_def isLineTerminator_def)

text \<open>
  C3, amended: for every string input and every rule set whose whitelist contains the
  normalized value (the input itself when there is no \<open>normalize\<close>, else what
  \<open>normalize\<close> returns for it), validateUsername returns at once with \<open>ok = true\<close>, no
  reasons and the normalized value, whatever the blacklist, the length bounds, the
  patterns and the custom validators say: a value that is in the whitelist and in the
  blacklist, with other rules that fail, is accepted.
\<close>

theorem whitelist_short_circuit:
  assumes "normalized rules s = Returns v" and "inList (whitelist rules) v"
  shows "validateUsername (JString s) rules = Inr \<lparr> ok = True, reasons = [], value_out = v \<rparr>"
  using assms by (simp add: validateUsername_def)

theorem whitelist_short_circuit_witness:
  "normalized rules_whitelisted (js ''admin'') = Returns (js ''admin'') \<and>
   inList (whitelist rules_whitelisted) (js ''admin'') \<and>
   inList (blacklist rules_whitelisted) (js ''admin'') \<and>
   validateUsername (JString (js ''admin'')) rules_whitelisted =
     Inr \<lparr> ok = True, reasons = [], value_out = js ''admin'' \<rparr>"
proof -
  have n: "normalized rules_whitelisted (js ''admin'') = Returns (js ''admin'')"
    by (simp add: rules_whitelisted_def no_rules_def normalized_def)
  have w: "inList (whitelist rules_whitelisted) (js ''admin'')"
    by (simp add: rules_whitelisted_def no_rules_def inList_def hasExact_def)
  have b: "inList (blacklist rules_whitelisted) (js ''admin'')"
    by (simp add: rules_whitelisted_def no_rules_def inList_def hasExact_def)
  show ?thesis using n w b whitelist_short_circuit [OF n w] by simp
qed

subsection \<open>Returning and throwing\<close>

text \<open>
  C5, as stated: validateUsername never throws, for every input and every rule set.
  \<open>normalize\<close> is called outside the \<open>try\<close>: when it throws, so does validateUsername.
\<close>

theorem validateUsername_normalize_throws:
  "validateUsername (JString (js ''bob'')) rules_throwing_normalize = Inl CallbackError"
  by (simp add: rules_throwing_normalize_def no_rules_def validateUsername_def normalized_def)

text \<open>
  C5, amended: for every input of any type and every rule set whose \<open>normalize\<close>, if
  there is one, returns on that input, and whose \<open>noConsecutive\<close> array holds no empty
  string, validateUsername returns a result and does not throw; a custom predicate that
  throws, once the custom validators are reached (the value is not whitelisted), puts
  the reason \<open>custom_validator_error\<close> into the result instead of propagating.
\<close>

theorem validateUsername_returns:
  assumes norm: "\<And>s. username = JString s \<Longrightarrow> normalized rules s \<noteq> Throws"
      and nc: "\<And>xs. noConsecutive rules = Some (JArray xs) \<Longrightarrow> [] \<notin> set xs"
  shows "\<exists>res. validateUsername username rules = Inr res \<and>
           (\<forall>s v. username = JString s \<and> normalized rules s = Returns v \<and>
                  \<not> inList (whitelist rules) v \<and>
                  list_ex (\<lambda>f. f v = Throws) (orDefault [] (custom rules)) \<longrightarrow>
                  js ''custom_validator_error'' \<in> set (reasons res))"
proof (cases username)
  case (JString s)
  with norm obtain v where v: "normalized rules s = Returns v"
    by (cases "normalized rules s") auto
  from collectReasons_returns [OF nc] obtain rs where
    rs: "collectReasons rules v = Inr rs"
        "set (customReasons (orDefault [] (custom rules)) v) \<subseteq> set rs"
    by blast
  show ?thesis
    using JString v rs customReasons_throws [of v "orDefault [] (custom rules)"]
    by (auto simp: validateUsername_def)
qed (simp_all add: validateUsername_def)

theorem validateUsername_returns_witness:
  "normalized rules_throwing_custom (js ''bob'') \<noteq> Throws \<and>
   noConsecutive rules_throwing_custom = None \<and>
   validateUsername (JString (js ''bob'')) rules_throwing_custom =
     Inr \<lparr> ok = False, reasons = [js ''custom_validator_error''], value_out = js ''bob'' \<rparr>"
  using validateUsername_returns [of "JString (js ''bob'')" rules_throwing_custom]
  by (simp add: rules_throwing_custom_def no_rules_def validateUsername_def normalized_def
      inList_def collectReasons_def consecutiveReasons_def pushIf_def orDefault_def
      fails_def disallowReasons_def js_def)

subsection \<open>Consecutive characters\<close>

text \<open>
  C6: for each character of \<open>noConsecutive\<close>, a set of characters, that the value
  contains twice in a row, the result carries the reason \<open>consecutive:<char>\<close>.
  Given as a \<open>Set\<close>, which the rule's type allows, the collection has no \<open>length\<close>,
  the guard \<open>noConsecutive.length > 0\<close> is false and the rule is skipped:
  \<open>"a__b"\<close> passes with \<open>new Set(["_"])\<close> and fails with \<open>["_"]\<close>.
\<close>

theorem noConsecutive_set_skipped:
  "validateUsername (JString (js ''a__b'')) (no_rules \<lparr> noConsecutive := Some (JSet [js ''_'']) \<rparr>)
     = Inr \<lparr> ok = True, reasons = [], value_out = js ''a__b'' \<rparr>
   \<and> validateUsername (JString (js ''a__b'')) (no_rules \<lparr> noConsecutive := Some (JArray [js ''_'']) \<rparr>)
     = Inr \<lparr> ok = False, reasons = [js ''consecutive:_''], value_out = js ''a__b'' \<rparr>"
  by (simp add: no_rules_def validateUsername_def normalized_def inList_def hasExact_def
      collectReasons_def consecutiveReasons_def pushIf_def orDefault_def fails_def
      disallowReasons_def js_def consecutiveRegExp_def escapeRegExp_def)

subsection \<open>The result\<close>

text \<open>
  C7: whatever the input and the rule set, a result that validateUsername returns has
  \<open>ok\<close> true exactly when its reasons are empty: on the non-string branch, on the
  whitelist short-circuit and on the path that collects every reason.
\<close>

theorem validateUsername_ok_iff_no_reasons:
  "validateUsername username rules = Inr res \<Longrightarrow> ok res = (reasons res = [])"
  by (auto simp: validateUsername_def split: jsval.splits outcome.splits if_splits sum.splits)

theorem validateUsername_ok_iff_no_reasons_witness:
  "validateUsername JNull no_rules =
     Inr \<lparr> ok = False, reasons = [js ''not_a_string''], value_out = [] \<rparr> \<and>
   ok \<lparr> ok = False, reasons = [js ''not_a_string''], value_out = [] \<rparr> =
     (reasons \<lparr> ok = False, reasons = [js ''not_a_string''], value_out = [] \<rparr> = [])"
proof -
  have r: "validateUsername JNull no_rules =
             Inr \<lparr> ok = False, reasons = [js ''not_a_string''], value_out = [] \<rparr>"
    by (simp add: validateUsername_def)
  show ?thesis using r validateUsername_ok_iff_no_reasons [OF r] by simp
qed

section \<open>Properties of escapeHTML\<close>

subsection \<open>The entity pattern\<close>

lemma run_bounds:
  assumes "run P cs = Some n"
  shows "2 \<le> n" "n \<le> length cs" "cs ! (n - 1) = 0x3B"
proof -
  let ?m = "length (takeWhile P cs)"
  from assms have m: "takeWhile P cs \<noteq> []" "take 1 (drop ?m cs) = [0x3B]" "n = Suc ?m"
    by (simp_all add: run_def Let_def split: if_splits)
  from m(2) have ne: "drop ?m cs \<noteq> []" by auto
  then have lt: "?m < length cs" by simp
  show "2 \<le> n" using m by (cases "takeWhile P cs") simp_all
  show "n \<le> length cs" using lt m by simp
  from m(2) ne have "hd (drop ?m cs) = 0x3B" by (cases "drop ?m cs") auto
  then show "cs ! (n - 1) = 0x3B" using lt m by (simp add: hd_drop_conv_nth)
qed

lemma run_append:
  assumes "\<not> list_all P xs"
  shows "run P (xs @ ys) = run P xs"
proof -
  from assms obtain x where x: "x \<in> set xs" "\<not> P x" by (auto simp: list_all_iff)
  then have tw: "takeWhile P (xs @ ys) = takeWhile P xs" by (rule takeWhile_append1)
  have "dropWhile P xs \<noteq> []" using x by (auto simp: dropWhile_eq_Nil_conv)
  moreover have "length (takeWhile P xs) + length (dropWhile P xs) = length xs"
    by (metis length_append takeWhile_dropWhile_id)
  ultimately have "length (takeWhile P xs) < length xs"
    by (cases "dropWhile P xs") auto
  then have t1: "take 1 (drop (length (takeWhile P xs)) (xs @ ys)) = take 1 (drop (length (takeWhile P xs)) xs)"
    by (cases "drop (length (takeWhile P xs)) xs") auto
  show ?thesis unfolding run_def tw Let_def t1 by (rule refl)
qed

lemma run_before_amp:
  assumes "\<not> P 0x26"
  shows "run P (xs @ 0x26 # ys) = run P xs"
proof (cases "list_all P xs")
  case True
  then have all: "\<And>x. x \<in> set xs \<Longrightarrow> P x" by (simp add: list_all_iff)
  have "takeWhile P (xs @ 0x26 # ys) = xs @ takeWhile P (0x26 # ys)"
    using all by (rule takeWhile_append2)
  then have l: "takeWhile P (xs @ 0x26 # ys) = xs" using assms by simp
  have r: "takeWhile P xs = xs" using all by (simp add: takeWhile_eq_all_conv)
  show ?thesis unfolding run_def l r by simp
next
  case False
  then show ?thesis by (rule run_append)
qed

lemma not_class_semicolon: "\<not> isDigit 0x3B" "\<not> isHexDigit 0x3B" "\<not> isAlnum 0x3B" "\<not> isAlpha 0x3B"
  by (simp_all add: isDigit_def isHexDigit_def isAlnum_def isAlpha_def isLower_def isUpper_def)

lemma not_class_amp: "\<not> isDigit 0x26" "\<not> isHexDigit 0x26" "\<not> isAlnum 0x26" "\<not> isAlpha 0x26"
  by (simp_all add: isDigit_def isHexDigit_def isAlnum_def isAlpha_def isLower_def isUpper_def)

lemma run_closed:
  assumes "r \<noteq> []" "last r = 0x3B" "\<not> P 0x3B"
  shows "run P (r @ ys) = run P r"
proof -
  have "last r \<in> set r" using assms(1) by simp
  then have "\<not> list_all P r" using assms by (auto simp: list_all_iff)
  then show ?thesis by (rule run_append)
qed

lemma altDecimal_closed:
  assumes "cs \<noteq> []" "last cs = 0x3B"
  shows "altDecimal (cs @ ys) = altDecimal cs"
proof (cases cs)
  case Nil with assms show ?thesis by simp
next
  case (Cons h r)
  show ?thesis
  proof (cases "r = []")
    case True
    with Cons assms show ?thesis by (simp add: altDecimal_def)
  next
    case False
    with Cons assms have "last r = 0x3B" by simp
    with False show ?thesis using Cons by (simp add: altDecimal_def run_closed not_class_semicolon)
  qed
qed

lemma altNamed_closed:
  assumes "cs \<noteq> []" "last cs = 0x3B"
  shows "altNamed (cs @ ys) = altNamed cs"
proof (cases cs)
  case Nil with assms show ?thesis by simp
next
  case (Cons h r)
  show ?thesis
  proof (cases "r = []")
    case True
    with Cons assms show ?thesis by (simp add: altNamed_def not_class_semicolon)
  next
    case False
    with Cons assms have "last r = 0x3B" by simp
    with False show ?thesis using Cons by (simp add: altNamed_def run_closed not_class_semicolon)
  qed
qed

lemma altHex_closed:
  assumes "cs \<noteq> []" "last cs = 0x3B"
  shows "altHex (cs @ ys) = altHex cs"
proof (cases cs)
  case Nil with assms show ?thesis by simp
next
  case (Cons h r)
  note outer = Cons
  show ?thesis
  proof (cases r)
    case Nil
    with outer assms show ?thesis by (cases ys) (simp_all add: altHex_def)
  next
    case (Cons x r')
    show ?thesis
    proof (cases "r' = []")
      case True
      with outer Cons assms show ?thesis by (simp add: altHex_def)
    next
      case False
      with outer Cons assms have "last r' = 0x3B" by simp
      with False show ?thesis using outer Cons by (simp add: altHex_def run_closed not_class_semicolon)
    qed
  qed
qed

lemma entityTail_closed:
  "cs \<noteq> [] \<Longrightarrow> last cs = 0x3B \<Longrightarrow> entityTail (cs @ ys) = entityTail cs"
  by (simp add: entityTail_def altDecimal_closed altHex_closed altNamed_closed
      cong: option.case_cong)

lemma altDecimal_before_amp: "altDecimal (cs @ 0x26 # ys) = altDecimal cs"
  by (cases cs) (simp_all add: altDecimal_def run_before_amp not_class_amp)

lemma altNamed_before_amp: "altNamed (cs @ 0x26 # ys) = altNamed cs"
  by (cases cs) (simp_all add: altNamed_def run_before_amp not_class_amp)

lemma altHex_before_amp: "altHex (cs @ 0x26 # ys) = altHex cs"
proof (cases cs)
  case Nil then show ?thesis by (simp add: altHex_def split: list.splits)
next
  case (Cons h r)
  then show ?thesis by (cases r) (simp_all add: altHex_def run_before_amp not_class_amp)
qed

lemma entityTail_before_amp: "entityTail (cs @ 0x26 # ys) = entityTail cs"
  by (simp add: entityTail_def altDecimal_before_amp altHex_before_amp altNamed_before_amp
      cong: option.case_cong)

lemma entityTail_bounds:
  assumes "entityTail cs = Some k"
  shows "2 \<le> k" "k \<le> length cs" "cs ! (k - 1) = 0x3B"
proof -
  have "2 \<le> k \<and> k \<le> length cs \<and> cs ! (k - 1) = 0x3B"
  proof (cases "altDecimal cs")
    case (Some k')
    with assms have k: "altDecimal cs = Some k" by (simp add: entityTail_def)
    then obtain h r n where "cs = h # r" "run isDigit r = Some n" "k = Suc n"
      by (auto simp: altDecimal_def split: list.splits if_splits)
    then show ?thesis using run_bounds [of isDigit r n] by auto
  next
    case None
    note dec = None
    show ?thesis
    proof (cases "altHex cs")
      case (Some k')
      with assms dec have k: "altHex cs = Some k" by (simp add: entityTail_def)
      then obtain h x r n where "cs = h # x # r" "run isHexDigit r = Some n" "k = Suc (Suc n)"
        by (auto simp: altHex_def split: list.splits if_splits)
      then show ?thesis using run_bounds [of isHexDigit r n] by auto
    next
      case None
      with assms dec have k: "altNamed cs = Some k" by (simp add: entityTail_def)
      then obtain h r n where "cs = h # r" "run isAlnum r = Some n" "k = Suc n"
        by (auto simp: altNamed_def split: list.splits if_splits)
      then show ?thesis using run_bounds [of isAlnum r n] by auto
    qed
  qed
  then show "2 \<le> k" "k \<le> length cs" "cs ! (k - 1) = 0x3B" by simp_all
qed

lemma entityTail_take:
  assumes "entityTail cs = Some k"
  shows "entityTail (take k cs) = Some k" "length (take k cs) = k" "take k cs \<noteq> []" "last (take k cs) = 0x3B"
proof -
  note b = entityTail_bounds [OF assms]
  show len: "length (take k cs) = k" using b by (simp add: min_absorb2)
  show ne: "take k cs \<noteq> []" using b by auto
  show l: "last (take k cs) = 0x3B" using b ne by (simp add: last_conv_nth)
  have "entityTail (take k cs @ drop k cs) = entityTail (take k cs)"
    using ne l by (rule entityTail_closed)
  then show "entityTail (take k cs) = Some k" using assms by simp
qed

lemma isEntityRef_token: "entityTail cs = Some k \<Longrightarrow> isEntityRef (0x26 # take k cs)"
  using entityTail_take(1,2) [of cs k] by (simp add: isEntityRef_def del: length_take)

lemma isEntityRef_shape:
  assumes "isEntityRef e"
  obtains cs where "e = 0x26 # cs" "entityTail cs = Some (length cs)" "cs \<noteq> []" "last cs = 0x3B"
proof -
  from assms obtain cs where e: "e = 0x26 # cs" "entityTail cs = Some (length cs)"
    by (auto simp: isEntityRef_def split: list.splits)
  from entityTail_take [OF e(2)] have "cs \<noteq> []" "last cs = 0x3B" by simp_all
  with e show thesis by (rule that)
qed

lemma scanTokens_entity:
  assumes "isEntityRef e"
  shows "scanTokens f (e @ rest) = f e @ scanTokens f rest"
proof -
  from assms obtain cs where e: "e = 0x26 # cs" "entityTail cs = Some (length cs)" "cs \<noteq> []" "last cs = 0x3B"
    by (rule isEntityRef_shape)
  have "entityTail (cs @ rest) = Some (length cs)"
    using e by (simp add: entityTail_closed)
  then show ?thesis using e by simp
qed

lemma scanTokens_before_amp:
  "scanTokens f (a @ 0x26 # r) = scanTokens f a @ scanTokens f (0x26 # r)"
proof (induction f a rule: scanTokens.induct)
  case (1 f)
  then show ?case by simp
next
  case (2 f c cs)
  show ?case
  proof (cases "if c = 0x26 then entityTail cs else None")
    case None
    then have n': "(if c = 0x26 then entityTail (cs @ 0x26 # r) else None) = None"
      by (auto simp: entityTail_before_amp split: if_splits)
    show ?thesis
      using None n' 2 by (simp del: scanTokens.simps(2) add: scanTokens.simps(2) [of f c] )
  next
    case (Some k)
    then have k: "entityTail cs = Some k" "c = 0x26" by (auto split: if_splits)
    then have n': "(if c = 0x26 then entityTail (cs @ 0x26 # r) else None) = Some k"
      by (simp add: entityTail_before_amp)
    have le: "k \<le> length cs" using entityTail_bounds [OF k(1)] by simp
    show ?thesis
      using Some n' "2.IH"(3) [OF Some] le by simp
  qed
qed

lemma entityTail_Nil: "entityTail [] = None"
  by (simp add: entityTail_def altDecimal_def altHex_def altNamed_def)

lemma isEntityRef_single: "\<not> isEntityRef [c]"
  by (simp add: isEntityRef_def entityTail_Nil)

lemma scanTokens_append_entity:
  assumes "isEntityRef e"
  shows "scanTokens f (a @ e @ b) = scanTokens f a @ f e @ scanTokens f b"
proof -
  from assms obtain cs where e: "e = 0x26 # cs" by (rule isEntityRef_shape)
  have "scanTokens f (a @ e @ b) = scanTokens f a @ scanTokens f (e @ b)"
    unfolding e using scanTokens_before_amp [of f a "cs @ b"] by simp
  then show ?thesis using assms by (simp add: scanTokens_entity)
qed

lemma scanTokens_single:
  "c \<noteq> 0x26 \<or> entityTail r = None \<Longrightarrow>
     scanTokens f (c # r) = (if isLineTerminator c then [c] else f [c]) @ scanTokens f r"
  by auto

text \<open>
  The first alternative of the pattern matches a whole text exactly when the text has
  the shape of an entity reference, and it matches at the front of a text exactly when
  a prefix of the text has that shape.
\<close>

lemma run_snoc:
  assumes "\<not> P 0x3B" "b \<noteq> []" "list_all P b"
  shows "run P (b @ [0x3B]) = Some (Suc (length b))"
proof -
  have "takeWhile P (b @ [0x3B]) = b @ takeWhile P [0x3B]"
    using assms(3) by (intro takeWhile_append2) (simp add: list_all_iff)
  then have "takeWhile P (b @ [0x3B]) = b" using assms(1) by simp
  then show ?thesis using assms(2) by (simp add: run_def)
qed

lemma run_whole_D:
  assumes "run P cs = Some (length cs)"
  shows "\<exists>b. cs = b @ [0x3B] \<and> b \<noteq> [] \<and> list_all P b"
proof -
  let ?t = "takeWhile P cs"
  let ?n = "length ?t"
  from assms have t: "?t \<noteq> []" "take 1 (drop ?n cs) = [0x3B]" "length cs = Suc ?n"
    by (simp_all add: run_def Let_def split: if_splits)
  have "length (drop ?n cs) = 1" using t(3) by simp
  then have d: "drop ?n cs = [0x3B]" using t(2) by (cases "drop ?n cs") auto
  have "take ?n cs = ?t" using takeWhile_eq_take [of P cs] by simp
  then have "cs = ?t @ [0x3B]" using d append_take_drop_id [of ?n cs] by simp
  moreover have "list_all P ?t" by (auto simp: list_all_iff dest: set_takeWhileD)
  ultimately show ?thesis using t(1) by blast
qed

lemma run_whole:
  assumes "\<not> P 0x3B"
  shows "run P cs = Some (length cs) \<longleftrightarrow> (\<exists>b. cs = b @ [0x3B] \<and> b \<noteq> [] \<and> list_all P b)"
  using run_whole_D [of P cs] run_snoc [of P] assms by auto


lemma class_facts:
  "\<not> isDigit 0x3B" "\<not> isHexDigit 0x3B" "\<not> isAlnum 0x3B"
  "\<not> isDigit 0x78" "\<not> isAlpha 0x23"
  by (simp_all add: isDigit_def isHexDigit_def isAlnum_def isAlpha_def isLower_def isUpper_def)

lemma entityShape_isEntityRef:
  assumes "entityShape m"
  shows "isEntityRef m"
proof -
  from assms obtain cs where m: "m = 0x26 # cs" "cs \<noteq> []" "last cs = 0x3B"
    and body: "decimalBody (butlast cs) \<or> hexBody 0x78 (butlast cs) \<or> namedBody (butlast cs)"
    by (auto simp: entityShape_def refShape_def split: list.splits)
  from m have cs: "cs = butlast cs @ [0x3B]" by (metis append_butlast_last_id)
  from body have "entityTail cs = Some (length cs)"
  proof (elim disjE)
    assume "decimalBody (butlast cs)"
    then obtain ds where b: "butlast cs = 0x23 # ds" "ds \<noteq> []" "list_all isDigit ds"
      by (auto simp: decimalBody_def digitsBody_def split: list.splits)
    have c: "cs = 0x23 # ds @ [0x3B]" using cs b(1) by simp
    show ?thesis
      unfolding c using b(2,3) run_snoc [of isDigit ds]
      by (simp add: entityTail_def altDecimal_def class_facts)
  next
    assume "hexBody 0x78 (butlast cs)"
    then obtain hs where b: "butlast cs = 0x23 # 0x78 # hs" "hs \<noteq> []" "list_all isHexDigit hs"
      by (auto simp: hexBody_def split: list.splits)
    have c: "cs = 0x23 # 0x78 # hs @ [0x3B]" using cs b(1) by simp
    have "run isDigit (0x78 # hs @ [0x3B]) = None"
      by (simp add: run_def class_facts)
    then show ?thesis
      unfolding c using b(2,3) run_snoc [of isHexDigit hs]
      by (simp add: entityTail_def altDecimal_def altHex_def class_facts)
  next
    assume "namedBody (butlast cs)"
    then obtain l r where b: "butlast cs = l # r" "isAlpha l" "r \<noteq> []" "list_all isAlnum r"
      by (auto simp: namedBody_def split: list.splits)
    have c: "cs = l # r @ [0x3B]" using cs b(1) by simp
    have l: "l \<noteq> 0x23" using b(2) class_facts(5) by auto
    obtain y r' where r: "r = y # r'" using b(3) by (cases r) auto
    show ?thesis
      unfolding c using b(2,3,4) l run_snoc [of isAlnum r]
      by (simp add: entityTail_def altDecimal_def altHex_def altNamed_def class_facts r)
  qed
  then show ?thesis using m by (simp add: isEntityRef_def)
qed

lemma isEntityRef_entityShape:
  assumes "isEntityRef m"
  shows "entityShape m"
proof -
  from assms obtain cs where m: "m = 0x26 # cs" "entityTail cs = Some (length cs)"
    by (auto simp: isEntityRef_def split: list.splits)
  have "cs \<noteq> [] \<and> last cs = 0x3B \<and>
        (decimalBody (butlast cs) \<or> hexBody 0x78 (butlast cs) \<or> namedBody (butlast cs))"
  proof (cases "altDecimal cs")
    case (Some k')
    with m have "altDecimal cs = Some (length cs)" by (simp add: entityTail_def)
    then obtain r where "cs = 0x23 # r" "run isDigit r = Some (length r)"
      by (auto simp: altDecimal_def split: list.splits if_splits)
    then show ?thesis
      using run_whole_D [of isDigit r] by (auto simp: decimalBody_def digitsBody_def butlast_append)
  next
    case None
    note dec = None
    show ?thesis
    proof (cases "altHex cs")
      case (Some k')
      with m dec have "altHex cs = Some (length cs)" by (simp add: entityTail_def)
      then obtain r where "cs = 0x23 # 0x78 # r" "run isHexDigit r = Some (length r)"
        by (auto simp: altHex_def split: list.splits if_splits)
      then show ?thesis
        using run_whole_D [of isHexDigit r] by (auto simp: hexBody_def butlast_append)
    next
      case None
      with m dec have "altNamed cs = Some (length cs)" by (simp add: entityTail_def)
      then obtain l r where "cs = l # r" "isAlpha l" "run isAlnum r = Some (length r)"
        by (auto simp: altNamed_def split: list.splits if_splits)
      then show ?thesis
        using run_whole_D [of isAlnum r] by (auto simp: namedBody_def butlast_append)
    qed
  qed
  then show ?thesis using m by (simp add: entityShape_def refShape_def)
qed

lemma isEntityRef_iff_entityShape: "isEntityRef m \<longleftrightarrow> entityShape m"
  using isEntityRef_entityShape entityShape_isEntityRef by blast

lemma startsWith_entityShape:
  "startsWith entityShape (c # r) \<longleftrightarrow> c = 0x26 \<and> entityTail r \<noteq> None"
proof
  assume "startsWith entityShape (c # r)"
  then obtain n where n: "entityShape (take n (c # r))"
    unfolding startsWith_def list_ex_iff by blast
  then have e: "isEntityRef (take n (c # r))" by (rule entityShape_isEntityRef)
  then obtain j where j: "n = Suc j" by (cases n) (auto simp: isEntityRef_def)
  from e j have ej: "isEntityRef (c # take j r)" by simp
  then obtain cs where cs: "c # take j r = 0x26 # cs" "entityTail cs = Some (length cs)"
      "cs \<noteq> []" "last cs = 0x3B"
    by (rule isEntityRef_shape)
  then have "entityTail (take j r @ drop j r) = entityTail (take j r)"
    by (intro entityTail_closed) auto
  then show "c = 0x26 \<and> entityTail r \<noteq> None" using cs by auto
next
  assume a: "c = 0x26 \<and> entityTail r \<noteq> None"
  then obtain k where k: "entityTail r = Some k" by auto
  then have "isEntityRef (0x26 # take k r)" by (rule isEntityRef_token)
  then have "entityShape (take (Suc k) (c # r))"
    using a by (simp add: isEntityRef_entityShape)
  moreover have "k \<le> length r" using entityTail_bounds(2) [OF k] .
  then have "Suc k \<in> set [0..<Suc (length (c # r))]" by (simp del: upt_Suc)
  ultimately show "startsWith entityShape (c # r)"
    unfolding startsWith_def list_ex_iff by blast
qed

subsection \<open>The callback\<close>

lemma replacer_entity:
  assumes "isEntityRef e"
  shows "replacer p m e = e"
proof -
  from assms obtain cs where e: "e = 0x26 # cs" "entityTail cs = Some (length cs)" "cs \<noteq> []" "last cs = 0x3B"
    by (rule isEntityRef_shape)
  then have "take 1 (rev e) = [0x3B]"
    by (cases cs rule: rev_cases) simp_all
  then show ?thesis using e by (simp add: replacer_def)
qed

lemma replacer_single:
  "replacer p m [c] =
     (if classTest p c then (case map_of m [c] of Some ent \<Rightarrow> ent | None \<Rightarrow> [c]) else [c])"
  by (simp add: replacer_def replaceClass_def)

subsection \<open>The default configuration\<close>

lemma escapeSet_default:
  "escapeSet (no_options \<lparr> preventDoubleEscape := pde \<rparr>) = [[0x26], [0x3C], [0x3E], [0x22], [0x27]]"
  by (simp add: escapeSet_def no_options_def extraChars_def excludeChars_def toChars_def
      orDefault_def entityMap_def spread_def ownEntries_def ownKeys_def baseMap_def js_def
      putProp_def isArrayIndex_def isDigit_def)

lemma entityMap_default: "entityMap (no_options \<lparr> preventDoubleEscape := pde \<rparr>) = baseMap"
  by (simp add: no_options_def orDefault_def entityMap_def spread_def ownEntries_def
      baseMap_def js_def putProp_def isArrayIndex_def isDigit_def)

lemma compileClass_default:
  "compileClass (regexClass (escapeSet (no_options \<lparr> preventDoubleEscape := pde \<rparr>))) = Inr defaultPattern"
  by (simp add: escapeSet_default regexClass_def escapeClassChar_def compileClass_def
      defaultPattern_def)

lemma escapeHTML_default:
  assumes "pde \<noteq> Some False"
  shows "escapeHTML (JString s) (no_options \<lparr> preventDoubleEscape := pde \<rparr>) =
           Inr (scanTokens (replacer defaultPattern baseMap) s)"
proof -
  have pde: "orDefault True (preventDoubleEscape (no_options \<lparr> preventDoubleEscape := pde \<rparr>))"
    using assms by (cases pde) (simp_all add: orDefault_def)
  have ne: "length (escapeSet (no_options \<lparr> preventDoubleEscape := pde \<rparr>)) \<noteq> 0"
    by (simp add: escapeSet_default)
  show ?thesis
    unfolding escapeHTML_def
    by (simp only: jsval.case ne if_False compileClass_default sum.case pde not_True_eq_False
        entityMap_default)
qed

lemma escapeHTML_no_options:
  "escapeHTML (JString s) no_options = Inr (scanTokens (replacer defaultPattern baseMap) s)"
proof -
  have "no_options = no_options \<lparr> preventDoubleEscape := None \<rparr>"
    by (simp add: no_options_def)
  then show ?thesis using escapeHTML_default [of None s] by simp
qed

lemma default_entities:
  "isEntityRef (js ''&amp;'')" "isEntityRef (js ''&lt;'')" "isEntityRef (js ''&gt;'')"
  "isEntityRef (js ''&quot;'')" "isEntityRef (js ''&#39;'')"
  by (simp_all add: isEntityRef_def entityTail_def altDecimal_def altHex_def altNamed_def run_def
      js_def isDigit_def isHexDigit_def isAlnum_def isAlpha_def isLower_def isUpper_def)

lemma default_single:
  "replacer defaultPattern baseMap [c] = [c] \<and> c \<noteq> 0x26 \<or>
   isEntityRef (replacer defaultPattern baseMap [c])"
proof (cases "classTest defaultPattern c")
  case False
  then have "c \<noteq> 0x26" by (auto simp: classTest_def defaultPattern_def)
  with False show ?thesis by (simp add: replacer_single)
next
  case True
  then consider "c = 0x26" | "c = 0x3C" | "c = 0x3E" | "c = 0x22" | "c = 0x27"
    by (auto simp: classTest_def defaultPattern_def)
  then show ?thesis
  proof cases
    case 1
    then show ?thesis
      using default_entities(1) True by (simp add: replacer_single baseMap_def js_def)
  next
    case 2
    then show ?thesis
      using default_entities(2) True by (simp add: replacer_single baseMap_def js_def)
  next
    case 3
    then show ?thesis
      using default_entities(3) True by (simp add: replacer_single baseMap_def js_def)
  next
    case 4
    then show ?thesis
      using default_entities(4) True by (simp add: replacer_single baseMap_def js_def)
  next
    case 5
    then show ?thesis
      using default_entities(5) True by (simp add: replacer_single baseMap_def js_def)
  qed
qed

text \<open>
  A second scan finds every token of the first scan's output again: an entity reference
  that was copied or produced is an entity reference, and every other character of the
  output is outside the class.
\<close>

lemma scanTokens_default_idem:
  "f = replacer defaultPattern baseMap \<Longrightarrow> scanTokens f (scanTokens f s) = scanTokens f s"
proof (induction f s rule: scanTokens.induct)
  case (1 f)
  then show ?case by simp
next
  case (2 f c cs)
  note f = "2.prems"
  show ?case
  proof (cases "if c = 0x26 then entityTail cs else None")
    case (Some k)
    then have k: "entityTail cs = Some k" "c = 0x26" by (auto split: if_splits)
    then have ent: "isEntityRef (c # take k cs)" by (simp add: isEntityRef_token)
    then have fe: "f (c # take k cs) = c # take k cs" using f by (simp add: replacer_entity)
    have "scanTokens f (c # cs) = (c # take k cs) @ scanTokens f (drop k cs)"
      using Some fe by simp
    moreover have "scanTokens f ((c # take k cs) @ scanTokens f (drop k cs))
        = f (c # take k cs) @ scanTokens f (scanTokens f (drop k cs))"
      using ent by (rule scanTokens_entity)
    ultimately show ?thesis using fe "2.IH"(3) [OF Some f] by simp
  next
    case None
    show ?thesis
    proof (cases "isLineTerminator c")
      case True
      then have "c \<noteq> 0x26" by (auto simp: isLineTerminator_def)
      then show ?thesis using None True "2.IH"(1) [OF None True f] by simp
    next
      case False
      have step: "scanTokens f (c # cs) = f [c] @ scanTokens f cs"
        using None False by simp
      have ih: "scanTokens f (scanTokens f cs) = scanTokens f cs"
        using "2.IH"(2) [OF None False f] .
      from default_single [of c] show ?thesis
      proof
        assume a: "replacer defaultPattern baseMap [c] = [c] \<and> c \<noteq> 0x26"
        then have "f [c] = [c]" using f by simp
        then show ?thesis using step ih a False by simp
      next
        assume a: "isEntityRef (replacer defaultPattern baseMap [c])"
        then have e: "isEntityRef (f [c])" using f by simp
        have "scanTokens f (f [c] @ scanTokens f cs) = f (f [c]) @ scanTokens f (scanTokens f cs)"
          using e by (rule scanTokens_entity)
        moreover have "f (f [c]) = f [c]" using e f by (simp add: replacer_entity)
        ultimately show ?thesis using step ih by simp
      qed
    qed
  qed
qed

text \<open>
  C1: under the default configuration (default entity map, no extra, no exclude), with
  preventDoubleEscape enabled (given as \<open>true\<close> or left to its default), escaping the
  result of escaping gives that result again, for every string.
\<close>

theorem escapeHTML_idempotent:
  assumes "pde \<noteq> Some False"
  shows "\<exists>t. escapeHTML (JString s) (no_options \<lparr> preventDoubleEscape := pde \<rparr>) = Inr t \<and>
             escapeHTML (JString t) (no_options \<lparr> preventDoubleEscape := pde \<rparr>) = Inr t"
  using assms by (simp add: escapeHTML_default scanTokens_default_idem)

theorem escapeHTML_idempotent_witness:
  "Some True \<noteq> Some False \<and>
   escapeHTML (JString (js ''<a> &amp; &b''))
     (no_options \<lparr> preventDoubleEscape := Some True \<rparr>) = Inr (js ''&lt;a&gt; &amp; &amp;b'') \<and>
   escapeHTML (JString (js ''&lt;a&gt; &amp; &amp;b''))
     (no_options \<lparr> preventDoubleEscape := Some True \<rparr>) = Inr (js ''&lt;a&gt; &amp; &amp;b'')"
proof -
  have h: "Some True \<noteq> Some False" by simp
  have v: "escapeHTML (JString (js ''<a> &amp; &b''))
             (no_options \<lparr> preventDoubleEscape := Some True \<rparr>) = Inr (js ''&lt;a&gt; &amp; &amp;b'')"
    by code_simp
  from escapeHTML_idempotent [OF h, of "js ''<a> &amp; &b''"] v show ?thesis by simp
qed

subsection \<open>Entity references are copied, other characters are escaped one by one\<close>

text \<open>
  C2, as stated: with preventDoubleEscape, a substring made of \<open>&\<close>, one or more digits
  and \<open>;\<close>, such as \<open>&12;\<close>, appears unchanged in the output. The pattern wants a
  \<open>#\<close> before the digits: \<open>&12;\<close> is no entity reference for it, its \<open>&\<close> is escaped,
  and the output \<open>&amp;12;\<close> does not contain \<open>&12;\<close>.
\<close>

theorem escapeHTML_digits_without_hash:
  "spec_entity_shape (js ''&12;'') \<and>
   escapeHTML (JString (js ''&12;'')) no_options = Inr (js ''&amp;12;'') \<and>
   \<not> containsText (js ''&12;'') (js ''&amp;12;'')"
  by code_simp

text \<open>The uppercase \<open>X\<close> is no hex prefix for the pattern either.\<close>

lemma escapeHTML_uppercase_hex:
  "spec_entity_shape (js ''&#X41;'') \<and>
   escapeHTML (JString (js ''&#X41;'')) no_options = Inr (js ''&amp;#X41;'')"
  by code_simp

text \<open>
  C2, amended: with preventDoubleEscape true, escapeHTML scans the input from left to
  right. A substring made of \<open>&\<close>, then \<open>#\<close> and one or more digits, or \<open>#x\<close> and one
  or more hex digits, or a letter and one or more alphanumerics, then \<open>;\<close>, is copied
  as it is wherever it occurs: the output is the escaped text before it, the reference,
  and the escaped text after it. A character that starts no such reference is escaped
  on its own, through the character-class substitution. Two cases are not stated: the
  \<open>&\<close> that starts a reference written with \<open>#X\<close>, and a line terminator that is a
  member of the class. When the class does not compile, all these calls throw alike.
\<close>

theorem escapeHTML_entity_verbatim:
  assumes "orDefault True (preventDoubleEscape options)"
  shows "(entityShape e \<longrightarrow>
            escapeHTML (JString (a @ e @ b)) options =
              joinResults (escapeHTML (JString a) options) e (escapeHTML (JString b) options))
       \<and> (\<not> startsWith entityShape (c # r) \<and> \<not> startsWith upperHexShape (c # r) \<longrightarrow>
            escapeHTML (JString (c # r)) options =
              joinResults (escapeHTML (JString [c]) options) [] (escapeHTML (JString r) options))
       \<and> (length (escapeSet options) = 0 \<longrightarrow> escapeHTML (JString [c]) options = Inr [c])
       \<and> (length (escapeSet options) \<noteq> 0 \<longrightarrow>
            (case compileClass (regexClass (escapeSet options)) of
               Inl err \<Rightarrow> escapeHTML (JString [c]) options = Inl err
             | Inr pattern \<Rightarrow>
                 (\<not> (isLineTerminator c \<and> classTest pattern c) \<longrightarrow>
                    escapeHTML (JString [c]) options =
                      Inr (replaceClass pattern (entityMap options) [c]))))"
proof (cases "length (escapeSet options) = 0")
  case True
  then show ?thesis by (simp add: escapeHTML_def joinResults_def)
next
  case False
  show ?thesis
  proof (cases "compileClass (regexClass (escapeSet options))")
    case (Inl err)
    with False show ?thesis by (simp add: escapeHTML_def joinResults_def)
  next
    case (Inr pattern)
    let ?f = "replacer pattern (entityMap options)"
    have esc: "\<And>s. escapeHTML (JString s) options = Inr (scanTokens ?f s)"
      using False Inr assms by (simp add: escapeHTML_def)
    have one: "\<not> (isLineTerminator c \<and> classTest pattern c) \<longrightarrow>
                 scanTokens ?f [c] = replaceClass pattern (entityMap options) [c]"
      using scanTokens_single [of c "[]" ?f]
      by (auto simp add: entityTail_Nil replacer_def replaceClass_def)
    have "entityShape e \<longrightarrow> scanTokens ?f (a @ e @ b) = scanTokens ?f a @ e @ scanTokens ?f b"
      by (simp add: scanTokens_append_entity replacer_entity entityShape_isEntityRef)
    moreover have "\<not> startsWith entityShape (c # r) \<longrightarrow>
                     scanTokens ?f (c # r) = scanTokens ?f [c] @ scanTokens ?f r"
      unfolding startsWith_entityShape
      using scanTokens_single [of c r ?f] scanTokens_single [of c "[]" ?f]
      by (auto simp add: entityTail_Nil)
    ultimately show ?thesis
      using False Inr one unfolding esc joinResults_def by simp
  qed
qed

theorem escapeHTML_entity_verbatim_witness:
  "orDefault True (preventDoubleEscape no_options) \<and> entityShape (js ''&#x41;'') \<and>
   escapeHTML (JString (js ''<&#x41;&'')) no_options = Inr (js ''&lt;&#x41;&amp;'') \<and>
   \<not> startsWith entityShape (js ''<a'') \<and> \<not> startsWith upperHexShape (js ''<a'') \<and>
   escapeHTML (JString (js ''<a'')) no_options = Inr (js ''&lt;a'')"
proof -
  have p: "orDefault True (preventDoubleEscape no_options)"
    by (simp add: no_options_def orDefault_def)
  have e: "entityShape (js ''&#x41;'')"
    by code_simp
  have n: "\<not> startsWith entityShape (js ''<a'')" "\<not> startsWith upperHexShape (js ''<a'')"
    by code_simp+
  have a: "escapeHTML (JString (js ''<'')) no_options = Inr (js ''&lt;'')"
    by code_simp
  have b: "escapeHTML (JString (js ''&'')) no_options = Inr (js ''&amp;'')"
    by code_simp
  have b': "escapeHTML (JString (js ''a'')) no_options = Inr (js ''a'')"
    by code_simp
  have s1: "js ''<&#x41;&'' = js ''<'' @ js ''&#x41;'' @ js ''&''" by (simp add: js_def)
  have s2: "js ''<a'' = 0x3C # js ''a''" "js ''<'' = [0x3C]" by (simp_all add: js_def)
  note t = escapeHTML_entity_verbatim [OF p, of "js ''&#x41;''" "js ''<''" "js ''&''" "0x3C" "js ''a''"]
  have r1: "escapeHTML (JString (js ''<&#x41;&'')) no_options = Inr (js ''&lt;&#x41;&amp;'')"
    using t e a b unfolding s1 by (simp add: joinResults_def js_def)
  have r2: "escapeHTML (JString (js ''<a'')) no_options = Inr (js ''&lt;a'')"
    using t n a b' unfolding s2 by (simp add: joinResults_def js_def)
  show ?thesis using p e n r1 r2 by simp
qed

subsection \<open>The effective escape set\<close>

lemma set_newSet: "set (newSet xs) = set xs"
  by (induction xs) auto

lemma escapeSet_set:
  "set (escapeSet options) =
     (set (ownKeys (entityMap options)) \<union> set (extraChars options)) - set (excludeChars options)"
  by (auto simp: escapeSet_def set_newSet)

lemma escapeClassChar_append:
  "escapeClassChar (xs @ ys) = escapeClassChar xs @ escapeClassChar ys"
  by (simp add: escapeClassChar_def)

lemma regexClass_concat: "regexClass chs = escapeClassChar (concat chs)"
  by (induction chs)
    (simp_all add: regexClass_def escapeClassChar_append, simp add: escapeClassChar_def)

lemma sourceAtoms_escapeClassChar: "sourceAtoms (escapeClassChar s) = Some (map classAtom s)"
proof (induction s)
  case Nil
  then show ?case by (simp add: escapeClassChar_def)
next
  case (Cons c s)
  show ?case
  proof (cases "c \<in> set [0x5C, 0x5E, 0x24, 0x2E, 0x2A, 0x2B, 0x3F, 0x28, 0x29, 0x5B, 0x5D,
                         0x7B, 0x7D, 0x7C :: code_unit]")
    case True
    then have "escapeClassChar (c # s) = 0x5C # c # escapeClassChar s" "classAtom c = Escaped c"
      by (simp_all add: escapeClassChar_def classAtom_def)
    then show ?thesis using Cons by simp
  next
    case False
    then have "escapeClassChar (c # s) = c # escapeClassChar s" "classAtom c = Plain c" "c \<noteq> 0x5C"
      by (auto simp add: escapeClassChar_def classAtom_def)
    then show ?thesis using Cons by (simp add: sourceAtoms_plain)
  qed
qed

lemma classRanges_dash_at_ends:
  "Plain 0x2D \<notin> set (butlast (tl as)) \<Longrightarrow>
     classRanges as = Some (map (\<lambda>a. (atomChar a, atomChar a)) as)"
proof (induction as rule: classRanges.induct)
  case 1
  then show ?case by simp
next
  case (2 a d b rest)
  then have "d \<noteq> 0x2D" by auto
  moreover have "Plain 0x2D \<notin> set (butlast (tl (Plain d # b # rest)))"
    using "2.prems" by (auto split: if_splits)
  ultimately show ?case using "2.IH" by simp
qed (auto split: if_splits)


lemma classAtom_char: "atomChar (classAtom c) = c"
  by (simp add: classAtom_def)

text \<open>
  With no \<open>-\<close> strictly inside, no range forms and the class is the set of its
  characters.
\<close>

lemma compileClass_dash_at_ends:
  assumes "0x2D \<notin> set (butlast (tl s))"
  shows "compileClass (escapeClassChar s) = Inr (map (\<lambda>c. (c, c)) s)"
proof -
  have "butlast (tl (map classAtom s)) = map classAtom (butlast (tl s))"
    by (simp add: map_butlast map_tl)
  then have "Plain 0x2D \<notin> set (butlast (tl (map classAtom s)))"
    using assms by (auto simp: classAtom_def split: if_splits)
  then have "classRanges (map classAtom s) =
               Some (map (\<lambda>a. (atomChar a, atomChar a)) (map classAtom s))"
    by (rule classRanges_dash_at_ends)
  then show ?thesis
    by (simp add: compileClass_def sourceAtoms_escapeClassChar classAtom_char comp_def)
qed

lemma classTest_singles: "classTest (map (\<lambda>c. (c, c)) s) c \<longleftrightarrow> c \<in> set s"
  by (auto simp: classTest_def list_ex_iff)

lemma singletons_concat:
  "list_all (\<lambda>m. length m = 1) chs \<Longrightarrow> concat chs = map hd chs"
proof (induction chs)
  case Nil
  then show ?case by simp
next
  case (Cons m chs)
  from Cons.prems obtain x where m: "m = [x]" by (cases m) auto
  then show ?case using Cons by simp
qed

lemma singletons_member:
  "list_all (\<lambda>m. length m = 1) chs \<Longrightarrow> [c] \<in> set chs \<longleftrightarrow> c \<in> set (concat chs)"
proof (induction chs)
  case Nil
  then show ?case by simp
next
  case (Cons m chs)
  from Cons.prems obtain x where m: "m = [x]" by (cases m) auto
  then show ?case using Cons by auto
qed

lemma singletons_no_range:
  fixes chs :: "jsstring list"
  assumes "list_all (\<lambda>m. length m = 1) chs" "[0x2D] \<notin> set (butlast (tl chs))"
  shows "0x2D \<notin> set (butlast (tl (concat chs)))"
proof
  assume "0x2D \<in> set (butlast (tl (concat chs)))"
  then have "0x2D \<in> set (map hd (butlast (tl chs)))"
    using singletons_concat [OF assms(1)] by (simp add: map_butlast map_tl)
  then obtain m where m: "m \<in> set (butlast (tl chs))" "hd m = 0x2D" by auto
  from m(1) have "m \<in> set (tl chs)" by (rule in_set_butlastD)
  then have "m \<in> set chs" by (cases chs) auto
  then have "length m = 1" using assms(1) by (simp add: list_all_iff)
  then have "m = [0x2D]" using m(2) by (cases m) auto
  with m(1) assms(2) show False by simp
qed

text \<open>
  C4, as stated: for every configuration each occurrence of a member of the effective
  escape set is replaced by its entity. Under the default configuration \<open>&\<close> is a
  member, and the \<open>&\<close> of \<open>&amp;\<close> is not replaced: the reference is copied.
\<close>

theorem escapeHTML_spares_references:
  "[0x26] \<in> set (escapeSet no_options) \<and>
   escapeHTML (JString (js ''&amp;'')) no_options = Inr (js ''&amp;'') \<and>
   concat (map (substitute no_options) (js ''&amp;'')) = js ''&amp;amp;''"
  by code_simp

text \<open>
  A \<open>-\<close> between two members of the set is not escaped and makes a range of the
  class: with \<open>extra: "-a"\<close> the class holds everything from \<open>'\<close> to \<open>a\<close>, so the
  excluded \<open><\<close> is escaped all the same; with \<open>extra: "-!"\<close> the range is out of order
  and \<open>new RegExp\<close> throws. With preventDoubleEscape a line terminator in the set is
  never replaced, since \<open>.\<close> does not match it.
\<close>

lemma escapeHTML_range_escapes_excluded:
  "[0x3C] \<notin> set (escapeSet options_range) \<and>
   escapeHTML (JString (js ''<'')) options_range = Inr (js ''&lt;'')"
  by code_simp

lemma escapeHTML_range_out_of_order:
  "escapeHTML (JString (js ''x'')) options_bad_range = Inl RegExpSyntaxError"
  by code_simp

lemma escapeHTML_line_terminator_kept:
  "[0x0A] \<in> set (escapeSet options_newline) \<and>
   escapeHTML (JString [0x0A]) options_newline = Inr [0x0A]"
  by code_simp

text \<open>
  C4, amended: the effective escape set is (keys of the merged entity map \<union> extra) -
  exclude. Take a configuration whose effective escape set consists of single code
  units, with no \<open>-\<close> standing between two other members (so that no range forms)
  and, when preventDoubleEscape is on, with no line terminator among them. If the set
  is empty the input is returned unchanged. Without preventDoubleEscape every character
  of the input is replaced by its substitute: the mapped entity of a set member, the
  character itself when it has no map entry or is no member. With preventDoubleEscape
  escapeHTML returns, an entity reference at the front of the text is copied and the
  rest escaped in the same way, and a character that starts no entity reference is
  replaced by its substitute, the rest being escaped in the same way; what happens to
  the \<open>&\<close> of a reference written with \<open>#X\<close> is not stated.
\<close>

theorem escapeHTML_effective_escape_set:
  assumes single: "list_all (\<lambda>m. length m = 1) (escapeSet options)"
      and norange: "[0x2D] \<notin> set (butlast (tl (escapeSet options)))"
      and nolt: "orDefault True (preventDoubleEscape options) \<Longrightarrow>
                   list_all (\<lambda>m. \<not> list_ex isLineTerminator m) (escapeSet options)"
  shows "set (escapeSet options) =
           (set (ownKeys (entityMap options)) \<union> set (extraChars options)) -
           set (excludeChars options)
       \<and> (escapeSet options = [] \<longrightarrow> escapeHTML (JString s) options = Inr s)
       \<and> (\<not> orDefault True (preventDoubleEscape options) \<longrightarrow>
            escapeHTML (JString s) options = Inr (concat (map (substitute options) s)))
       \<and> (orDefault True (preventDoubleEscape options) \<longrightarrow>
            (\<exists>t. escapeHTML (JString s) options = Inr t)
          \<and> escapeHTML (JString []) options = Inr []
          \<and> (entityShape e \<longrightarrow>
                escapeHTML (JString (e @ b)) options =
                  joinResults (Inr []) e (escapeHTML (JString b) options))
          \<and> (\<not> startsWith entityShape (c # r) \<and> \<not> startsWith upperHexShape (c # r) \<longrightarrow>
                escapeHTML (JString (c # r)) options =
                  joinResults (Inr (substitute options c)) [] (escapeHTML (JString r) options)))"
proof -
  let ?S = "escapeSet options"
  let ?cs = "concat ?S"
  let ?p = "map (\<lambda>c. (c, c)) ?cs"
  let ?f = "replacer ?p (entityMap options)"
  have mem: "\<And>c. [c] \<in> set ?S \<longleftrightarrow> c \<in> set ?cs"
    using singletons_member [OF single] .
  have comp: "compileClass (regexClass ?S) = Inr ?p"
    using singletons_no_range [OF single norange]
    by (simp add: regexClass_concat compileClass_dash_at_ends)
  have memb: "\<And>c. classTest ?p c \<longleftrightarrow> [c] \<in> set ?S"
    using mem by (simp only: classTest_singles)
  have rc: "\<And>t. replaceClass ?p (entityMap options) t = concat (map (substitute options) t)"
    by (simp add: replaceClass_def substitute_def [abs_def] memb)
  have empty: "?S = [] \<longrightarrow> escapeHTML (JString s) options = Inr s"
    by (simp add: escapeHTML_def)
  have off: "\<not> orDefault True (preventDoubleEscape options) \<longrightarrow>
               escapeHTML (JString s) options = Inr (concat (map (substitute options) s))"
  proof (cases "?S = []")
    case True
    then have "\<And>c. substitute options c = [c]" by (simp add: substitute_def)
    then have "concat (map (substitute options) s) = s" by (induction s) simp_all
    then show ?thesis using True by (simp add: escapeHTML_def)
  next
    case False
    then show ?thesis by (simp add: escapeHTML_def comp rc)
  qed
  have on: "orDefault True (preventDoubleEscape options) \<longrightarrow>
            (\<exists>t. escapeHTML (JString s) options = Inr t)
          \<and> escapeHTML (JString []) options = Inr []
          \<and> (entityShape e \<longrightarrow>
                escapeHTML (JString (e @ b)) options =
                  joinResults (Inr []) e (escapeHTML (JString b) options))
          \<and> (\<not> startsWith entityShape (c # r) \<and> \<not> startsWith upperHexShape (c # r) \<longrightarrow>
                escapeHTML (JString (c # r)) options =
                  joinResults (Inr (substitute options c)) [] (escapeHTML (JString r) options))"
  proof
    assume pde: "orDefault True (preventDoubleEscape options)"
    have lt: "\<And>c. isLineTerminator c \<Longrightarrow> substitute options c = [c]"
      using nolt [OF pde] by (auto simp: substitute_def list_all_iff)
    show "(\<exists>t. escapeHTML (JString s) options = Inr t)
          \<and> escapeHTML (JString []) options = Inr []
          \<and> (entityShape e \<longrightarrow>
                escapeHTML (JString (e @ b)) options =
                  joinResults (Inr []) e (escapeHTML (JString b) options))
          \<and> (\<not> startsWith entityShape (c # r) \<and> \<not> startsWith upperHexShape (c # r) \<longrightarrow>
                escapeHTML (JString (c # r)) options =
                  joinResults (Inr (substitute options c)) [] (escapeHTML (JString r) options))"
    proof (cases "?S = []")
      case True
      then have "\<And>c. substitute options c = [c]" by (simp add: substitute_def)
      then show ?thesis using True by (simp add: escapeHTML_def joinResults_def)
    next
      case False
      have esc: "\<And>t. escapeHTML (JString t) options = Inr (scanTokens ?f t)"
        using False pde by (simp add: escapeHTML_def comp)
      have one: "\<And>c. (if isLineTerminator c then [c] else ?f [c]) = substitute options c"
        using rc lt by (simp add: replacer_def)
      have "entityShape e \<longrightarrow> scanTokens ?f (e @ b) = e @ scanTokens ?f b"
        by (simp add: scanTokens_entity replacer_entity entityShape_isEntityRef)
      moreover have "\<not> startsWith entityShape (c # r) \<longrightarrow>
                       scanTokens ?f (c # r) = substitute options c @ scanTokens ?f r"
        unfolding startsWith_entityShape
        using scanTokens_single [of c r ?f] one [of c] by auto
      ultimately show ?thesis unfolding esc joinResults_def by simp
    qed
  qed
  show ?thesis using escapeSet_set [of options] empty off on by blast
qed

theorem escapeHTML_effective_escape_set_witness:
  "list_all (\<lambda>m. length m = 1) (escapeSet options_dash) \<and>
   [0x2D] \<notin> set (butlast (tl (escapeSet options_dash))) \<and>
   orDefault True (preventDoubleEscape options_dash) \<and>
   list_all (\<lambda>m. \<not> list_ex isLineTerminator m) (escapeSet options_dash) \<and>
   entityShape (js ''&amp;'') \<and>
   escapeHTML (JString (js ''&amp;a-b<'')) options_dash = Inr (js ''&amp;a&#45;b&lt;'') \<and>
   list_all (\<lambda>m. length m = 1) (escapeSet options_equals) \<and>
   [0x2D] \<notin> set (butlast (tl (escapeSet options_equals))) \<and>
   \<not> orDefault True (preventDoubleEscape options_equals) \<and>
   escapeHTML (JString (js ''a=b`c<'')) options_equals = Inr (js ''a&equals;b&#96;c&lt;'')"
proof -
  have d1: "list_all (\<lambda>m. length m = 1) (escapeSet options_dash)"
    by code_simp
  have d2: "[0x2D] \<notin> set (butlast (tl (escapeSet options_dash)))"
    by code_simp
  have d3: "list_all (\<lambda>m. \<not> list_ex isLineTerminator m) (escapeSet options_dash)"
    by code_simp
  have dp: "orDefault True (preventDoubleEscape options_dash)"
    by code_simp
  have de: "entityShape (js ''&amp;'')"
    by code_simp
  have dv: "escapeHTML (JString (js ''a-b<'')) options_dash = Inr (js ''a&#45;b&lt;'')"
    by code_simp
  have ds: "js ''&amp;a-b<'' = js ''&amp;'' @ js ''a-b<''" by (simp add: js_def)
  have dr: "escapeHTML (JString (js ''&amp;a-b<'')) options_dash = Inr (js ''&amp;a&#45;b&lt;'')"
    using escapeHTML_effective_escape_set [OF d1 d2, of "[]" "js ''&amp;''" "js ''a-b<''"]
      d3 dp de dv
    unfolding ds by (simp add: joinResults_def js_def)
  have e1: "list_all (\<lambda>m. length m = 1) (escapeSet options_equals)"
    by code_simp
  have e2: "[0x2D] \<notin> set (butlast (tl (escapeSet options_equals)))"
    by code_simp
  have ep: "\<not> orDefault True (preventDoubleEscape options_equals)"
    by code_simp
  have ev: "concat (map (substitute options_equals) (js ''a=b`c<'')) = js ''a&equals;b&#96;c&lt;''"
    by code_simp
  have er: "escapeHTML (JString (js ''a=b`c<'')) options_equals = Inr (js ''a&equals;b&#96;c&lt;'')"
    using escapeHTML_effective_escape_set [OF e1 e2, of "js ''a=b`c<''"] ep ev
    by simp
  show ?thesis using d1 d2 d3 dp de dr e1 e2 ep er by simp
qed

end
